theory Spec2Isabelle
  imports Main "HOL-Library.Sublist" "HOL-Library.Monad_Syntax"
begin

section \<open>JavaScript strings\<close>

text \<open>
  A JavaScript string is a sequence of UTF-16 code units. A code unit is modelled by its
  numeric value; the program never does arithmetic on code units, it only compares them.
  ASCII literals of the source are written with \<open>js\<close>; the Japanese literals are given by
  their code units.
\<close>

type_synonym jschar = nat
type_synonym jsstring = "jschar list"

definition js :: "string \<Rightarrow> jsstring" where
  "js s = map of_char s"

definition NL :: jschar where
  "NL = 10"

text \<open>\<open>\s\<close> and \<open>String.prototype.trim\<close> use the same set: WhiteSpace and LineTerminator.\<close>

definition is_ws :: "jschar \<Rightarrow> bool" where
  "is_ws c = (c = 9 \<or> c = 10 \<or> c = 11 \<or> c = 12 \<or> c = 13 \<or> c = 32 \<or> c = 160 \<or> c = 5760
     \<or> (8192 \<le> c \<and> c \<le> 8202) \<or> c = 8232 \<or> c = 8233 \<or> c = 8239 \<or> c = 8287
     \<or> c = 12288 \<or> c = 65279)"

text \<open>LineTerminator: LF, CR, U+2028, U+2029. Without the \<open>s\<close> flag, \<open>.\<close> is any other code unit.\<close>

definition is_lt :: "jschar \<Rightarrow> bool" where
  "is_lt c = (c = 10 \<or> c = 13 \<or> c = 8232 \<or> c = 8233)"

definition dot :: "jschar \<Rightarrow> bool" where
  "dot c = (\<not> is_lt c)"

definition is_digit :: "jschar \<Rightarrow> bool" where
  "is_digit c = (48 \<le> c \<and> c \<le> 57)"

text \<open>The class \<open>[:\s\uFF1A]\<close>; its third member, written here by its escape, is the
  full-width colon.\<close>

definition is_sep :: "jschar \<Rightarrow> bool" where
  "is_sep c = (c = 58 \<or> is_ws c \<or> c = 65306)"

text \<open>The class \<open>[\*\-]\<close>.\<close>

definition is_bullet :: "jschar \<Rightarrow> bool" where
  "is_bullet c = (c = 42 \<or> c = 45)"

definition trim :: "jsstring \<Rightarrow> jsstring" where
  "trim s = rev (dropWhile is_ws (rev (dropWhile is_ws s)))"

text \<open>
  \<open>parseInt\<close> on a string of decimal digits. The source compares the result with 1, 2, 3
  and 4 only; the rounding of very long digit strings to a double never produces one of
  these from another value, so the exact value decides the same comparisons.
\<close>

definition parseInt :: "jsstring \<Rightarrow> nat" where
  "parseInt ds = foldl (\<lambda>n c. 10 * n + (c - 48)) 0 ds"

text \<open>\<open>text.split('\n')\<close>: the pieces between line feeds; always at least one piece.\<close>

fun split_acc :: "jsstring \<Rightarrow> jsstring \<Rightarrow> jsstring list" where
  "split_acc cur [] = [cur]"
| "split_acc cur (c # cs) = (if c = NL then cur # split_acc [] cs else split_acc (cur @ [c]) cs)"

definition split_nl :: "jsstring \<Rightarrow> jsstring list" where
  "split_nl s = split_acc [] s"

text \<open>\<open>Array.prototype.join\<close>.\<close>

fun join :: "jsstring \<Rightarrow> jsstring list \<Rightarrow> jsstring" where
  "join sep [] = []"
| "join sep [x] = x"
| "join sep (x # y # ys) = x @ sep @ join sep (y # ys)"

section \<open>Backtracking regular expressions\<close>

text \<open>
  A regular expression piece maps the text at the current position to the list of ways it
  can match there, in the order in which the backtracking matcher of JavaScript tries
  them. Sequencing is the bind of the list monad, and the match the engine reports is the
  first element of the resulting list.
\<close>

definition first :: "'a list \<Rightarrow> 'a option" where
  "first xs = (case xs of [] \<Rightarrow> None | x # _ \<Rightarrow> Some x)"

text \<open>A literal: one way if the text starts with it; the rest of the text is returned.\<close>

definition lit :: "jsstring \<Rightarrow> jsstring \<Rightarrow> jsstring list" where
  "lit p s = (if prefix p s then [drop (length p) s] else [])"

text \<open>A character class, once.\<close>

definition cls :: "(jschar \<Rightarrow> bool) \<Rightarrow> jsstring \<Rightarrow> jsstring list" where
  "cls P s = (case s of [] \<Rightarrow> [] | c # cs \<Rightarrow> if P c then [cs] else [])"

text \<open>\<open>X*\<close> and \<open>X+\<close> (greedy): the longest run first; each way is (matched text, rest).\<close>

fun star_greedy :: "(jschar \<Rightarrow> bool) \<Rightarrow> jsstring \<Rightarrow> (jsstring \<times> jsstring) list" where
  "star_greedy P [] = [([], [])]"
| "star_greedy P (c # cs) =
     (if P c then map (\<lambda>(m, r). (c # m, r)) (star_greedy P cs) else []) @ [([], c # cs)]"

definition plus_greedy :: "(jschar \<Rightarrow> bool) \<Rightarrow> jsstring \<Rightarrow> (jsstring \<times> jsstring) list" where
  "plus_greedy P s =
     (case s of [] \<Rightarrow> []
      | c # cs \<Rightarrow> if P c then map (\<lambda>(m, r). (c # m, r)) (star_greedy P cs) else [])"

text \<open>\<open>X*?\<close> and \<open>X+?\<close> (lazy): the shortest run first.\<close>

fun star_lazy :: "(jschar \<Rightarrow> bool) \<Rightarrow> jsstring \<Rightarrow> (jsstring \<times> jsstring) list" where
  "star_lazy P [] = [([], [])]"
| "star_lazy P (c # cs) =
     ([], c # cs) # (if P c then map (\<lambda>(m, r). (c # m, r)) (star_lazy P cs) else [])"

definition plus_lazy :: "(jschar \<Rightarrow> bool) \<Rightarrow> jsstring \<Rightarrow> (jsstring \<times> jsstring) list" where
  "plus_lazy P s =
     (case s of [] \<Rightarrow> []
      | c # cs \<Rightarrow> if P c then map (\<lambda>(m, r). (c # m, r)) (star_lazy P cs) else [])"

text \<open>\<open>#{2,3}\<close> (greedy): three first, then two.\<close>

definition hashes23 :: "jsstring \<Rightarrow> jsstring list" where
  "hashes23 s = lit (js ''###'') s @ lit (js ''##'') s"

text \<open>
  The literal \<open>Title\<close> under the \<open>i\<close> flag. Without the \<open>u\<close> flag a code unit is compared
  after upper-casing, and a code unit of 128 or more is never identified with an ASCII
  one, so only the two ASCII cases of each letter match.
\<close>

definition canon :: "jschar \<Rightarrow> jschar" where
  "canon c = (if 97 \<le> c \<and> c \<le> 122 then c - 32 else c)"

definition lit_ci :: "jsstring \<Rightarrow> jsstring \<Rightarrow> jsstring list" where
  "lit_ci p s =
     (if length p \<le> length s \<and> map canon (take (length p) s) = map canon p
      then [drop (length p) s] else [])"

text \<open>An unanchored pattern is tried at every position from the left.\<close>

fun search :: "(jsstring \<Rightarrow> 'a list) \<Rightarrow> jsstring \<Rightarrow> 'a option" where
  "search m [] = first (m [])"
| "search m (c # cs) = (case m (c # cs) of r # _ \<Rightarrow> Some r | [] \<Rightarrow> search m cs)"

text \<open>\<open>s.replace(re, '')\<close> for an unanchored \<open>re\<close> without the \<open>g\<close> flag; \<open>m\<close> gives the rest
  after a match.\<close>

fun remove_first :: "(jsstring \<Rightarrow> jsstring list) \<Rightarrow> jsstring \<Rightarrow> jsstring" where
  "remove_first m [] = (case m [] of r # _ \<Rightarrow> r | [] \<Rightarrow> [])"
| "remove_first m (c # cs) = (case m (c # cs) of r # _ \<Rightarrow> r | [] \<Rightarrow> c # remove_first m cs)"

section \<open>The template parser\<close>

text \<open>The Japanese literals of the source, as code units.\<close>

definition jp_translation :: jsstring where
  "jp_translation = [26085, 26412, 35486, 35379]"

definition jp_vocab :: jsstring where
  "jp_vocab = [37325, 35201, 21336, 35486]"

definition jp_title :: jsstring where
  "jp_title = [12479, 12452, 12488, 12523]"

text \<open>\<open>/^#{2,3}\s*(\d+)\.\s*(.+)/i\<close>: the two groups.\<close>

definition headerMatch :: "jsstring \<Rightarrow> (jsstring \<times> jsstring) option" where
  "headerMatch s = first (do {
     r0 \<leftarrow> hashes23 s;
     (_, r1) \<leftarrow> star_greedy is_ws r0;
     (d, r2) \<leftarrow> plus_greedy is_digit r1;
     r3 \<leftarrow> lit (js ''.'') r2;
     (_, r4) \<leftarrow> star_greedy is_ws r3;
     (c, _) \<leftarrow> plus_greedy dot r4;
     [(d, c)] })"

text \<open>\<open>[:\s\uFF1A]+(.+)\<close>, the end of the title and of the vocabulary pattern: the group.\<close>

definition sepText :: "jsstring \<Rightarrow> jsstring list" where
  "sepText s = do {
     (_, r) \<leftarrow> plus_greedy is_sep s;
     (g, _) \<leftarrow> plus_greedy dot r;
     [g] }"

text \<open>\<open>/Title[:\s\uFF1A]+(.+)/i\<close>: the group.\<close>

definition titleMatch :: "jsstring \<Rightarrow> jsstring option" where
  "titleMatch s = search (\<lambda>t. do {
     r0 \<leftarrow> lit_ci (js ''Title'') t;
     sepText r0 }) s"

text \<open>\<open>/^#{2,3}\s*.*K/\<close> as a test, for the keyword \<open>K\<close> of the translation header
  (U+65E5 U+672C U+8A9E U+8A33) and of the vocabulary header (U+91CD U+8981 U+5358 U+8A9E).\<close>

definition keywordHeader :: "jsstring \<Rightarrow> jsstring \<Rightarrow> bool" where
  "keywordHeader k s = (first (do {
     r0 \<leftarrow> hashes23 s;
     (_, r1) \<leftarrow> star_greedy is_ws r0;
     (_, r2) \<leftarrow> star_greedy dot r1;
     r3 \<leftarrow> lit k r2;
     [()] }) \<noteq> None)"

text \<open>\<open>/^[\*\-]\s*\*\*(.+?)\*\*[:\s\uFF1A]+(.+)/\<close>: the two groups.\<close>

definition vocabMatch :: "jsstring \<Rightarrow> (jsstring \<times> jsstring) option" where
  "vocabMatch s = first (do {
     r0 \<leftarrow> cls is_bullet s;
     (_, r1) \<leftarrow> star_greedy is_ws r0;
     r2 \<leftarrow> lit (js ''**'') r1;
     (w, r3) \<leftarrow> plus_lazy dot r2;
     r4 \<leftarrow> lit (js ''**'') r3;
     m \<leftarrow> sepText r4;
     [(w, m)] })"

text \<open>\<open>/^#{2,3}\s/\<close>, as a test.\<close>

definition subHeader :: "jsstring \<Rightarrow> bool" where
  "subHeader s = (first (do { r0 \<leftarrow> hashes23 s; r1 \<leftarrow> cls is_ws r0; [()] }) \<noteq> None)"

text \<open>\<open>.replace(/^#{2,3}\s*/, '')\<close>.\<close>

definition stripMarker :: "jsstring \<Rightarrow> jsstring" where
  "stripMarker s =
     (case first (do { r0 \<leftarrow> hashes23 s; (_, r1) \<leftarrow> star_greedy is_ws r0; [r1] }) of
        None \<Rightarrow> s | Some r \<Rightarrow> r)"

text \<open>\<open>.replace(/\u30BF\u30A4\u30C8\u30EB[\uFF1A:]\s*/, '')\<close>: the katakana word for "title",
  a full-width or ASCII colon, and white space.\<close>

definition stripTitleLabel :: "jsstring \<Rightarrow> jsstring" where
  "stripTitleLabel s = remove_first (\<lambda>t. do {
     r0 \<leftarrow> lit jp_title t;
     r1 \<leftarrow> cls (\<lambda>c. c = 65306 \<or> c = 58) r0;
     (_, r2) \<leftarrow> star_greedy is_ws r1;
     [r2] }) s"

datatype cursor = Unset | TitleSec | EnglishSec | VocabSec | TranslationSec

record vocab_item =
  word :: jsstring
  meaning :: jsstring

text \<open>The local variables of \<open>parseTemplate\<close>.\<close>

record pstate =
  title :: jsstring
  englishBody :: jsstring
  vocabItems :: "vocab_item list"
  translationText :: jsstring
  currentSection :: cursor

text \<open>The object \<open>parseTemplate\<close> returns; \<open>rtitle\<close> is its property \<open>title\<close>.\<close>

record parsed =
  rtitle :: jsstring
  english :: jsstring
  vocab :: "vocab_item list"
  translation :: jsstring

definition init :: pstate where
  "init = \<lparr>title = [], englishBody = [], vocabItems = [], translationText = [],
            currentSection = Unset\<rparr>"

text \<open>The numbered header: the new state when the loop body ends with \<open>continue\<close> there,
  \<open>None\<close> when control falls through to the rest of the body.\<close>

definition numbered :: "pstate \<Rightarrow> jsstring \<Rightarrow> pstate option" where
  "numbered st trimmed =
     (case headerMatch trimmed of
        None \<Rightarrow> None
      | Some (g1, g2) \<Rightarrow>
          (let sectionNum = parseInt g1; sectionContent = trim g2 in
           if sectionNum = 1 then
             Some (st\<lparr>title := (case titleMatch sectionContent of
                                   Some g \<Rightarrow> trim g | None \<Rightarrow> sectionContent),
                      currentSection := TitleSec\<rparr>)
           else if sectionNum = 2 then Some (st\<lparr>currentSection := EnglishSec\<rparr>)
           else if sectionNum = 3 then Some (st\<lparr>currentSection := VocabSec\<rparr>)
           else if sectionNum = 4 then Some (st\<lparr>currentSection := TranslationSec\<rparr>)
           else None))"

text \<open>The last part of the loop body: content by current section.\<close>

definition collect :: "pstate \<Rightarrow> jsstring \<Rightarrow> jsstring \<Rightarrow> pstate" where
  "collect st line trimmed =
     (case currentSection st of
        Unset \<Rightarrow> st
      | TitleSec \<Rightarrow> if trimmed \<noteq> [] \<and> title st = [] then st\<lparr>title := trimmed\<rparr> else st
      | EnglishSec \<Rightarrow> st\<lparr>englishBody := englishBody st @ line @ [NL]\<rparr>
      | VocabSec \<Rightarrow>
          (case vocabMatch trimmed of
             None \<Rightarrow> st
           | Some (g1, g2) \<Rightarrow>
               st\<lparr>vocabItems := vocabItems st @ [\<lparr>word = trim g1, meaning = trim g2\<rparr>]\<rparr>)
      | TranslationSec \<Rightarrow>
          if subHeader trimmed then
            (let subTitle = stripTitleLabel (stripMarker trimmed) in
             if subTitle \<noteq> [] then
               st\<lparr>translationText :=
                    translationText st @ js ''**'' @ subTitle @ js ''**'' @ [NL, NL]\<rparr>
             else st)
          else st\<lparr>translationText := translationText st @ line @ [NL]\<rparr>)"

text \<open>One iteration of the loop.\<close>

definition step :: "pstate \<Rightarrow> jsstring \<Rightarrow> pstate" where
  "step st line =
     (let trimmed = trim line in
      case numbered st trimmed of
        Some st' \<Rightarrow> st'
      | None \<Rightarrow>
          if keywordHeader jp_translation trimmed then st\<lparr>currentSection := TranslationSec\<rparr>
          else if keywordHeader jp_vocab trimmed then st\<lparr>currentSection := VocabSec\<rparr>
          else collect st line trimmed)"

definition scan :: "jsstring \<Rightarrow> pstate" where
  "scan text = foldl step init (split_nl text)"

text \<open>\<open>parseTemplate\<close>: \<open>None\<close> is the \<open>null\<close> of the source.\<close>

definition parseTemplate :: "jsstring \<Rightarrow> parsed option" where
  "parseTemplate text =
     (let st = scan text in
      if title st = [] \<or> trim (englishBody st) = [] then None
      else Some \<lparr>rtitle = title st, english = trim (englishBody st),
                 vocab = vocabItems st, translation = trim (translationText st)\<rparr>)"

text \<open>
  The section that the loop body switches to on a line, read off its three tests in their
  order (the numbered heading with 1, 2, 3 or 4 first, then the translation keyword, then
  the vocabulary keyword); \<open>None\<close> for a line on which none of them ends the iteration.
  Below it is shown to give the current section after \<open>step\<close>.
\<close>

definition boundary :: "jsstring \<Rightarrow> cursor option" where
  "boundary t =
     (case (case headerMatch t of
              None \<Rightarrow> None
            | Some (g1, g2) \<Rightarrow>
                if parseInt g1 = 1 then Some TitleSec
                else if parseInt g1 = 2 then Some EnglishSec
                else if parseInt g1 = 3 then Some VocabSec
                else if parseInt g1 = 4 then Some TranslationSec
                else None) of
        Some s \<Rightarrow> Some s
      | None \<Rightarrow>
          if keywordHeader jp_translation t then Some TranslationSec
          else if keywordHeader jp_vocab t then Some VocabSec
          else None)"

section \<open>What a match consumes\<close>

lemma first_Some_mem: "first xs = Some x \<Longrightarrow> x \<in> set xs"
  by (cases xs) (auto simp: first_def)

lemma first_None_iff: "first xs = None \<longleftrightarrow> xs = []"
  by (cases xs) (auto simp: first_def)

lemma lit_iff: "r \<in> set (lit p s) \<longleftrightarrow> s = p @ r"
  by (auto simp: lit_def prefix_def)

lemma cls_iff: "r \<in> set (cls P s) \<longleftrightarrow> (\<exists>c. P c \<and> s = c # r)"
  by (cases s) (auto simp: cls_def)

lemma star_greedy_sound:
  "(m, r) \<in> set (star_greedy P s) \<Longrightarrow> s = m @ r \<and> (\<forall>c\<in>set m. P c)"
proof (induction s arbitrary: m r)
  case Nil
  then show ?case by simp
next
  case (Cons a s)
  then show ?case by (fastforce split: if_splits)
qed

lemma plus_greedy_sound:
  "(m, r) \<in> set (plus_greedy P s) \<Longrightarrow> s = m @ r \<and> m \<noteq> [] \<and> (\<forall>c\<in>set m. P c)"
  by (cases s) (fastforce simp: plus_greedy_def split: if_splits dest: star_greedy_sound)+

lemma star_lazy_sound:
  "(m, r) \<in> set (star_lazy P s) \<Longrightarrow> s = m @ r \<and> (\<forall>c\<in>set m. P c)"
proof (induction s arbitrary: m r)
  case Nil
  then show ?case by simp
next
  case (Cons a s)
  then show ?case by (fastforce split: if_splits)
qed

lemma plus_lazy_sound:
  "(m, r) \<in> set (plus_lazy P s) \<Longrightarrow> s = m @ r \<and> m \<noteq> [] \<and> (\<forall>c\<in>set m. P c)"
  by (cases s) (fastforce simp: plus_lazy_def split: if_splits dest: star_lazy_sound)+

section \<open>The inline markup renderer\<close>

text \<open>\<open>/\*\*(.+?)\*\*/\<close> at the current position: the group and the rest after the match.\<close>

definition boldMatch :: "jsstring \<Rightarrow> (jsstring \<times> jsstring) option" where
  "boldMatch s = first (do {
     r0 \<leftarrow> lit (js ''**'') s;
     (g, r1) \<leftarrow> plus_lazy dot r0;
     r2 \<leftarrow> lit (js ''**'') r1;
     [(g, r2)] })"

text \<open>
  \<open>/(?<!\*)\*([^*]+?)\*(?!\*)/\<close> at the current position; \<open>prev\<close> is the code unit before
  the position, if there is one.
\<close>

definition emMatch :: "jschar option \<Rightarrow> jsstring \<Rightarrow> (jsstring \<times> jsstring) option" where
  "emMatch prev s =
     (if prev = Some 42 then None
      else first (do {
        r0 \<leftarrow> lit (js ''*'') s;
        (g, r1) \<leftarrow> plus_lazy (\<lambda>c. c \<noteq> 42) r0;
        r2 \<leftarrow> lit (js ''*'') r1;
        if prefix (js ''*'') r2 then [] else [(g, r2)] }))"

text \<open>\<open>/\n{2,}/\<close> at the current position: the rest after the match.\<close>

definition paraBreak :: "jsstring \<Rightarrow> jsstring option" where
  "paraBreak s = first (do {
     r0 \<leftarrow> lit [NL, NL] s;
     (_, r1) \<leftarrow> star_greedy (\<lambda>c. c = NL) r0;
     [r1] })"

lemma boldMatch_sound:
  assumes "boldMatch s = Some (g, r)"
  shows "s = js ''**'' @ g @ js ''**'' @ r \<and> g \<noteq> [] \<and> (\<forall>c\<in>set g. dot c)"
  using first_Some_mem [OF assms [unfolded boldMatch_def]]
  by (auto simp: lit_iff set_list_bind dest!: plus_lazy_sound)

lemma emMatch_sound:
  assumes "emMatch prev s = Some (g, r)"
  shows "s = js ''*'' @ g @ js ''*'' @ r \<and> g \<noteq> []"
proof -
  from assms have "first (do {
        r0 \<leftarrow> lit (js ''*'') s;
        (g, r1) \<leftarrow> plus_lazy (\<lambda>c. c \<noteq> 42) r0;
        r2 \<leftarrow> lit (js ''*'') r1;
        if prefix (js ''*'') r2 then [] else [(g, r2)] }) = Some (g, r)"
    by (simp add: emMatch_def split: if_splits)
  from first_Some_mem [OF this] show ?thesis
    by (auto simp: lit_iff set_list_bind split: if_splits dest!: plus_lazy_sound)
qed

lemma paraBreak_sound:
  assumes "paraBreak s = Some r"
  shows "\<exists>m. s = NL # NL # m @ r"
  using first_Some_mem [OF assms [unfolded paraBreak_def]]
  by (auto simp: lit_iff set_list_bind dest!: star_greedy_sound)

text \<open>
  \<open>.replace(re, '<strong>$1</strong>')\<close> with the \<open>g\<close> flag: the leftmost match is replaced
  and the scan goes on after it; where nothing matches, the code unit is copied.
\<close>

function replaceBold :: "jsstring \<Rightarrow> jsstring" where
  "replaceBold [] = []"
| "replaceBold (c # cs) =
     (case boldMatch (c # cs) of
        Some (g, r) \<Rightarrow> js ''<strong>'' @ g @ js ''</strong>'' @ replaceBold r
      | None \<Rightarrow> c # replaceBold cs)"
  by pat_completeness auto
termination
proof (relation "measure length")
  fix c cs x2 g r
  assume "boldMatch (c # cs) = Some x2" "(g, r) = x2"
  then have "c # cs = js ''**'' @ g @ js ''**'' @ r"
    using boldMatch_sound [of "c # cs" g r] by simp
  then have "length (c # cs) = length (js ''**'' @ g @ js ''**'' @ r)" by simp
  then show "(r, c # cs) \<in> measure length" by (simp add: js_def)
qed auto

text \<open>The same for \<open>'<em>$1</em>'\<close>; a match ends with an asterisk, which is then the code
  unit before the next position.\<close>

function replaceEm :: "jschar option \<Rightarrow> jsstring \<Rightarrow> jsstring" where
  "replaceEm prev [] = []"
| "replaceEm prev (c # cs) =
     (case emMatch prev (c # cs) of
        Some (g, r) \<Rightarrow> js ''<em>'' @ g @ js ''</em>'' @ replaceEm (Some 42) r
      | None \<Rightarrow> c # replaceEm (Some c) cs)"
  by pat_completeness auto
termination
proof (relation "measure (\<lambda>(p, s). length s)")
  fix prev c cs x2 g r
  assume "emMatch prev (c # cs) = Some x2" "(g, r) = x2"
  then have "c # cs = js ''*'' @ g @ js ''*'' @ r"
    using emMatch_sound [of prev "c # cs" g r] by simp
  then have "length (c # cs) = length (js ''*'' @ g @ js ''*'' @ r)" by simp
  then show "((Some 42, r), (prev, c # cs)) \<in> measure (\<lambda>(p, s). length s)"
    by (simp add: js_def)
qed auto

text \<open>\<open>.split(/\n{2,}/)\<close>: \<open>cur\<close> is the piece being collected.\<close>

function splitParas :: "jsstring \<Rightarrow> jsstring \<Rightarrow> jsstring list" where
  "splitParas cur [] = [cur]"
| "splitParas cur (c # cs) =
     (case paraBreak (c # cs) of
        Some r \<Rightarrow> cur # splitParas [] r
      | None \<Rightarrow> splitParas (cur @ [c]) cs)"
  by pat_completeness auto
termination
proof (relation "measure (\<lambda>(p, s). length s)")
  fix cur :: jsstring and c cs r
  assume "paraBreak (c # cs) = Some r"
  then obtain m where "c # cs = NL # NL # m @ r"
    using paraBreak_sound by blast
  then have "length (c # cs) = length (NL # NL # m @ r)" by simp
  then show "(([], r), (cur, c # cs)) \<in> measure (\<lambda>(p, s). length s)" by simp
qed auto

text \<open>\<open>.replace(/(?<!<\/p>)\n(?!<p>)/g, '<br>')\<close>: \<open>pre\<close> is the text before the position.\<close>

fun replaceBr :: "jsstring \<Rightarrow> jsstring \<Rightarrow> jsstring" where
  "replaceBr pre [] = []"
| "replaceBr pre (c # cs) =
     (if \<not> suffix (js ''</p>'') pre \<and> c = NL \<and> \<not> prefix (js ''<p>'') cs
      then js ''<br>'' @ replaceBr (pre @ [c]) cs
      else c # replaceBr (pre @ [c]) cs)"

text \<open>\<open>markdownToHtml\<close>: \<open>None\<close> is the argument \<open>undefined\<close>.\<close>

definition markdownToHtml :: "jsstring option \<Rightarrow> jsstring" where
  "markdownToHtml text =
     (case text of
        None \<Rightarrow> []
      | Some t \<Rightarrow>
          if t = [] then []
          else replaceBr []
                 (join [NL]
                    (map (\<lambda>para. js ''<p>'' @ trim para @ js ''</p>'')
                       (splitParas [] (replaceEm None (replaceBold t))))))"

text \<open>A paragraph container around \<open>q\<close>.\<close>

definition container :: "jsstring \<Rightarrow> jsstring" where
  "container q = js ''<p>'' @ q @ js ''</p>''"

section \<open>Vocabulary entries\<close>

text \<open>An entry whose meaning is not empty and whose two texts carry no white space at
  either end; the word may be empty.\<close>

definition entry_ok :: "vocab_item \<Rightarrow> bool" where
  "entry_ok e \<longleftrightarrow>
     meaning e \<noteq> [] \<and> \<not> is_ws (hd (meaning e)) \<and> \<not> is_ws (last (meaning e))
     \<and> (word e = [] \<or> (\<not> is_ws (hd (word e)) \<and> \<not> is_ws (last (word e))))"

section \<open>Evaluation on concrete texts\<close>

lemmas re_eval = js_def NL_def is_ws_def is_lt_def dot_def is_digit_def is_sep_def is_bullet_def
  trim_def parseInt_def split_nl_def first_def lit_def cls_def plus_greedy_def plus_lazy_def
  hashes23_def canon_def lit_ci_def jp_translation_def jp_vocab_def jp_title_def
  headerMatch_def sepText_def titleMatch_def keywordHeader_def vocabMatch_def subHeader_def stripMarker_def
  stripTitleLabel_def numbered_def collect_def step_def scan_def parseTemplate_def init_def
  boldMatch_def emMatch_def paraBreak_def markdownToHtml_def suffix_to_prefix

section \<open>Scenario A\<close>

definition scenarioA :: jsstring where
  "scenarioA =
     js ''### 1. Title: The Lost Key'' @ [NL]
     @ js ''### 2. English Short Story'' @ [NL]
     @ js ''She found a **rusty** key.'' @ [NL]
     @ js ''### 3. '' @ [37325, 35201, 21336, 35486, 12500, 12483, 12463, 12450, 12483, 12503]
     @ [NL]
     @ js ''* **rusty**: covered with rust'' @ [NL]
     @ js ''### 4. '' @ [26085, 26412, 35486, 35379] @ [NL]
     @ [24444, 22899, 12399, 37638, 12403, 12383, 37749, 12434, 35211, 12388, 12369, 12383,
        12290]"

text \<open>Scenario B: a title and a body section only.\<close>

definition inputB :: jsstring where
  "inputB = js ''## 1. T'' @ [NL] @ js ''## 2. E'' @ [NL] @ js ''b''"

text \<open>A vocabulary section whose only line is no vocabulary line.\<close>

definition inputV :: jsstring where
  "inputV = js ''## 1. T'' @ [NL] @ js ''## 2. E'' @ [NL] @ js ''b'' @ [NL]
     @ js ''## 3. V'' @ [NL] @ js ''not a bullet''"

text \<open>A numbered heading with the number 5 inside the body section.\<close>

definition inputC3 :: jsstring where
  "inputC3 = js ''## 1. T'' @ [NL] @ js ''## 2. E'' @ [NL] @ js ''## 5. Extra'' @ [NL] @ js ''body''"

text \<open>Two paragraphs, the second of two lines.\<close>

definition twoParas :: jsstring where
  "twoParas = js ''a'' @ [NL, NL] @ js ''b'' @ [NL] @ js ''c''"

text \<open>A vocabulary line whose bold span holds a single space.\<close>

definition inputC9 :: jsstring where
  "inputC9 = js ''## 1. T'' @ [NL] @ js ''## 2. E'' @ [NL] @ js ''body'' @ [NL]
     @ js ''## 3. V'' @ [NL] @ js ''* ** **: x''"

lemma scenarioA_value:
  "parseTemplate scenarioA =
     Some \<lparr>rtitle = js ''The Lost Key'',
           english = js ''She found a **rusty** key.'',
           vocab = [\<lparr>word = js ''rusty'', meaning = js ''covered with rust''\<rparr>],
           translation = [24444, 22899, 12399, 37638, 12403, 12383, 37749, 12434, 35211,
                          12388, 12369, 12383, 12290]\<rparr>"
  by (simp add: scenarioA_def re_eval)

text \<open>
  Claim C5. On the seven lines of Scenario A, \<open>parseTemplate\<close> returns a record, not \<open>null\<close>:
  the title is "The Lost Key", the body is "She found a **rusty** key.", the vocabulary is
  the single entry (rusty, covered with rust), and the translation is the Japanese sentence
  of the last line.
\<close>

theorem scenarioA_parsed:
  "parseTemplate scenarioA =
     Some \<lparr>rtitle = js ''The Lost Key'',
           english = js ''She found a **rusty** key.'',
           vocab = [\<lparr>word = js ''rusty'', meaning = js ''covered with rust''\<rparr>],
           translation = [24444, 22899, 12399, 37638, 12403, 12383, 37749, 12434, 35211,
                          12388, 12369, 12383, 12290]\<rparr>"
  by (rule scenarioA_value)

section \<open>The renderer on empty and on hostile text\<close>

text \<open>
  Claim C8. \<open>markdownToHtml\<close> returns a fragment for every argument (it is a total function:
  each of its loops is defined with a termination proof), and for the argument \<open>undefined\<close>
  and for the empty string the fragment is empty.
\<close>

theorem markdownToHtml_total_empty:
  "markdownToHtml None = [] \<and> markdownToHtml (Some []) = [] \<and> (\<exists>html. markdownToHtml text = html)"
  by (simp add: markdownToHtml_def)

text \<open>
  Claim C1 says that markup-significant characters of the text are escaped. The source
  copies them: an image element with an event handler comes out of \<open>markdownToHtml\<close>
  unchanged inside the paragraph.
\<close>

theorem markdownToHtml_copies_markup:
  "markdownToHtml (Some (js ''<img src=x onerror=alert(1)>''))
     = js ''<p><img src=x onerror=alert(1)></p>''"
  by (simp add: re_eval)

section \<open>The loop body and the boundary rules\<close>

lemma collect_cursor: "currentSection (collect st line t) = currentSection st"
  by (simp add: collect_def Let_def split: cursor.splits option.splits prod.splits)

lemma step_cursor:
  "currentSection (step st line) =
     (case boundary (trim line) of Some s \<Rightarrow> s | None \<Rightarrow> currentSection st)"
  by (simp add: step_def numbered_def boundary_def collect_cursor Let_def
      split: option.splits prod.splits)

lemma numbered_None: "boundary t = None \<Longrightarrow> numbered st t = None"
  by (cases "headerMatch t") (auto simp: numbered_def boundary_def Let_def split: if_splits)

lemma boundary_None_keywords:
  "boundary t = None \<Longrightarrow> \<not> keywordHeader jp_translation t \<and> \<not> keywordHeader jp_vocab t"
  by (auto simp: boundary_def split: option.splits if_splits)

lemma step_no_boundary: "boundary (trim line) = None \<Longrightarrow> step st line = collect st line (trim line)"
  by (simp add: step_def Let_def numbered_None boundary_None_keywords)

lemma step_boundary_content:
  "boundary (trim line) = Some s \<Longrightarrow>
     englishBody (step st line) = englishBody st \<and> vocabItems (step st line) = vocabItems st
     \<and> translationText (step st line) = translationText st"
  by (simp add: step_def numbered_def boundary_def Let_def split: option.splits prod.splits if_splits)

section \<open>Rejection\<close>

text \<open>
  Claim C2. \<open>parseTemplate\<close> returns \<open>null\<close> exactly when the title extracted by the scan
  is empty or the body is empty after trimming. It is a total function, so failure is
  signalled by the result and never by an exception; when a record is returned all four
  fields are filled from the scan, and title and body are not empty.
\<close>

theorem parseTemplate_rejects_iff:
  "(parseTemplate text = None \<longleftrightarrow> title (scan text) = [] \<or> trim (englishBody (scan text)) = [])
   \<and> (\<forall>r. parseTemplate text = Some r \<longrightarrow>
          r = \<lparr>rtitle = title (scan text), english = trim (englishBody (scan text)),
               vocab = vocabItems (scan text), translation = trim (translationText (scan text))\<rparr>
          \<and> rtitle r \<noteq> [] \<and> english r \<noteq> [])"
  by (auto simp: parseTemplate_def Let_def)

theorem parseTemplate_rejects_iff_witness:
  "parseTemplate inputB = Some \<lparr>rtitle = js ''T'', english = js ''b'', vocab = [], translation = []\<rparr>
   \<and> rtitle \<lparr>rtitle = js ''T'', english = js ''b'', vocab = [], translation = []\<rparr> \<noteq> []
   \<and> english \<lparr>rtitle = js ''T'', english = js ''b'', vocab = [], translation = []\<rparr> \<noteq> []"
proof -
  have e: "parseTemplate inputB
             = Some \<lparr>rtitle = js ''T'', english = js ''b'', vocab = [], translation = []\<rparr>"
    by (simp add: inputB_def re_eval)
  from parseTemplate_rejects_iff [of inputB] e show ?thesis by blast
qed

section \<open>Inputs without vocabulary or translation\<close>

lemma foldl_take_Suc:
  "n < length xs \<Longrightarrow> foldl f s (take (Suc n) xs) = f (foldl f s (take n xs)) (xs ! n)"
  by (simp add: take_Suc_conv_app_nth)

lemma collect_vocab_unchanged:
  "currentSection st \<noteq> VocabSec \<or> vocabMatch t = None \<Longrightarrow>
     vocabItems (collect st line t) = vocabItems st"
  by (cases "currentSection st"; cases "vocabMatch t") (auto simp: collect_def Let_def)

lemma step_vocab_unchanged:
  "vocabItems (step st line) = vocabItems st"
  if "currentSection st \<noteq> VocabSec \<or> vocabMatch (trim line) = None"
proof (cases "boundary (trim line)")
  case None
  then show ?thesis using that by (simp add: step_no_boundary collect_vocab_unchanged)
next
  case (Some s)
  then show ?thesis using step_boundary_content [of line s st] by simp
qed

lemma collect_translation_unchanged:
  "currentSection st \<noteq> TranslationSec \<Longrightarrow>
     translationText (collect st line t) = translationText st"
  by (cases "currentSection st"; cases "vocabMatch t") (auto simp: collect_def Let_def)

lemma step_translation_unchanged:
  "translationText (step st line) = translationText st" if "currentSection st \<noteq> TranslationSec"
proof (cases "boundary (trim line)")
  case None
  then show ?thesis using that by (simp add: step_no_boundary collect_translation_unchanged)
next
  case (Some s)
  then show ?thesis using step_boundary_content [of line s st] by simp
qed

lemma scan_no_vocab_match:
  assumes "\<forall>i<length ls. currentSection (foldl step init (take i ls)) = VocabSec
             \<longrightarrow> vocabMatch (trim (ls ! i)) = None"
  shows "n \<le> length ls \<Longrightarrow> vocabItems (foldl step init (take n ls)) = []"
proof (induction n)
  case 0
  then show ?case by (simp add: init_def)
next
  case (Suc n)
  then have n: "n < length ls" and ih: "vocabItems (foldl step init (take n ls)) = []"
    by simp_all
  have "currentSection (foldl step init (take n ls)) \<noteq> VocabSec
      \<or> vocabMatch (trim (ls ! n)) = None"
  proof (cases "currentSection (foldl step init (take n ls)) = VocabSec")
    case True
    then have "vocabMatch (trim (ls ! n)) = None"
      by (rule assms [rule_format, OF n])
    then show ?thesis by (rule disjI2)
  next
    case False
    then show ?thesis by (rule disjI1)
  qed
  then have "vocabItems (step (foldl step init (take n ls)) (ls ! n))
      = vocabItems (foldl step init (take n ls))"
    by (rule step_vocab_unchanged)
  moreover have "foldl step init (take (Suc n) ls) = step (foldl step init (take n ls)) (ls ! n)"
    using n by (rule foldl_take_Suc)
  ultimately show ?case
    using ih by simp
qed

lemma scan_no_headings:
  assumes "\<forall>l\<in>set ls. boundary (trim l) \<noteq> Some VocabSec \<and> boundary (trim l) \<noteq> Some TranslationSec"
    and "currentSection st \<notin> {VocabSec, TranslationSec}"
    and "vocabItems st = []" and "translationText st = []"
  shows "currentSection (foldl step st ls) \<notin> {VocabSec, TranslationSec}
         \<and> vocabItems (foldl step st ls) = [] \<and> translationText (foldl step st ls) = []"
  using assms
proof (induction ls arbitrary: st)
  case Nil
  then show ?case by simp
next
  case (Cons l ls)
  have "currentSection (step st l) \<notin> {VocabSec, TranslationSec}"
    using Cons.prems by (auto simp: step_cursor split: option.splits)
  moreover have "vocabItems (step st l) = []"
    using Cons.prems by (simp add: step_vocab_unchanged)
  moreover have "translationText (step st l) = []"
    using Cons.prems by (simp add: step_translation_unchanged)
  ultimately show ?case
    using Cons.IH [of "step st l"] Cons.prems(1) by simp
qed

section \<open>Headings with an unknown number\<close>

lemma hashes23_hash: "r \<in> set (hashes23 t) \<Longrightarrow> \<exists>u. t = 35 # 35 # u"
  by (auto simp: hashes23_def lit_iff js_def)

lemma headerMatch_hash:
  assumes "headerMatch t = Some x"
  shows "\<exists>u. t = 35 # 35 # u"
  using first_Some_mem [OF assms [unfolded headerMatch_def]]
  by (auto simp: set_list_bind dest: hashes23_hash)

lemma vocabMatch_bullet:
  assumes "vocabMatch t = Some x"
  shows "\<exists>b u. t = b # u \<and> is_bullet b"
  using first_Some_mem [OF assms [unfolded vocabMatch_def]]
  by (auto simp: set_list_bind cls_iff)

lemma header_not_vocab: "headerMatch t = Some x \<Longrightarrow> vocabMatch t = None"
proof (rule ccontr)
  assume h: "headerMatch t = Some x" and "vocabMatch t \<noteq> None"
  then obtain y where "vocabMatch t = Some y" by auto
  from vocabMatch_bullet [OF this] headerMatch_hash [OF h] show False
    by (auto simp: is_bullet_def)
qed

lemma numbered_unknown:
  "headerMatch t = Some (d, c) \<Longrightarrow> parseInt d \<notin> {1, 2, 3, 4} \<Longrightarrow> numbered st t = None"
  by (simp add: numbered_def Let_def)

lemma boundary_unknown:
  "headerMatch t = Some (d, c) \<Longrightarrow> parseInt d \<notin> {1, 2, 3, 4} \<Longrightarrow>
     boundary t = (if keywordHeader jp_translation t then Some TranslationSec
                   else if keywordHeader jp_vocab t then Some VocabSec else None)"
  by (simp add: boundary_def)

lemma collect_title:
  "title st \<noteq> [] \<Longrightarrow> title (collect st line t) = title st"
  by (cases "currentSection st"; cases "vocabMatch t") (auto simp: collect_def Let_def)

lemma collect_english:
  "englishBody (collect st line t)
     = (if currentSection st = EnglishSec then englishBody st @ line @ [NL] else englishBody st)"
  by (cases "currentSection st"; cases "vocabMatch t") (auto simp: collect_def Let_def)

lemma collect_translation:
  "translationText (collect st line t)
     = (if currentSection st = TranslationSec then
          (if subHeader t then
             (if stripTitleLabel (stripMarker t) = [] then translationText st
              else translationText st @ js ''**'' @ stripTitleLabel (stripMarker t) @ js ''**''
                     @ [NL, NL])
           else translationText st @ line @ [NL])
        else translationText st)"
  by (cases "currentSection st"; cases "vocabMatch t") (auto simp: collect_def Let_def)

lemma collect_translation_section:
  "currentSection st = TranslationSec \<Longrightarrow>
     title (collect st line t) = title st \<and> englishBody (collect st line t) = englishBody st
     \<and> vocabItems (collect st line t) = vocabItems st"
  by (auto simp: collect_def Let_def)

section \<open>Lines of the translation section\<close>

lemma star_greedy_longest:
  "\<exists>rest. star_greedy P s = (takeWhile P s, dropWhile P s) # rest"
  by (induction s) auto

lemma bind_nonempty: "List.bind xs f \<noteq> [] \<longleftrightarrow> (\<exists>x\<in>set xs. f x \<noteq> [])"
  by (induction xs) auto

lemma cls_nonempty: "cls P s \<noteq> [] \<longleftrightarrow> (\<exists>c r. s = c # r \<and> P c)"
  by (cases s) (auto simp: cls_def)

lemma bind_unit_nonempty: "List.bind ys (\<lambda>_. [()]) \<noteq> [] \<longleftrightarrow> ys \<noteq> []"
  by (cases ys) simp_all

lemma hashes23_iff: "r \<in> set (hashes23 t) \<longleftrightarrow> t = 35 # 35 # 35 # r \<or> t = 35 # 35 # r"
  by (auto simp: hashes23_def lit_iff js_def)

lemma subHeader_iff:
  "subHeader t \<longleftrightarrow> (\<exists>w r. is_ws w \<and> (t = 35 # 35 # 35 # w # r \<or> t = 35 # 35 # w # r))"
proof -
  have "subHeader t \<longleftrightarrow> List.bind (hashes23 t) (\<lambda>r0. List.bind (cls is_ws r0) (\<lambda>r1. [()])) \<noteq> []"
    by (simp add: subHeader_def first_None_iff)
  also have "\<dots> \<longleftrightarrow> (\<exists>r0\<in>set (hashes23 t). cls is_ws r0 \<noteq> [])"
    by (simp only: bind_nonempty [of "hashes23 t"] bind_unit_nonempty)
  also have "\<dots> \<longleftrightarrow> (\<exists>r0. (t = 35 # 35 # 35 # r0 \<or> t = 35 # 35 # r0) \<and> (\<exists>c r. r0 = c # r \<and> is_ws c))"
    by (simp only: Bex_def hashes23_iff cls_nonempty)
  also have "\<dots> \<longleftrightarrow> (\<exists>w r. is_ws w \<and> (t = 35 # 35 # 35 # w # r \<or> t = 35 # 35 # w # r))"
    by blast
  finally show ?thesis .
qed

lemma ws_not_hash: "is_ws w \<Longrightarrow> w \<noteq> 35"
  by (auto simp: is_ws_def)

lemma stripMarker_subHeader:
  assumes "subHeader t"
  shows "stripMarker t = dropWhile is_ws (dropWhile (\<lambda>c. c = 35) t)"
proof -
  from assms obtain w r where w: "is_ws w"
    and t: "t = 35 # 35 # 35 # w # r \<or> t = 35 # 35 # w # r"
    by (auto simp: subHeader_iff)
  obtain rest where g: "star_greedy is_ws (w # r) = (takeWhile is_ws (w # r), dropWhile is_ws (w # r)) # rest"
    using star_greedy_longest by blast
  from t show ?thesis
  proof
    assume "t = 35 # 35 # 35 # w # r"
    then show ?thesis
      using g w ws_not_hash [OF w]
      by (simp add: stripMarker_def hashes23_def lit_def js_def first_def)
  next
    assume "t = 35 # 35 # w # r"
    then show ?thesis
      using g w ws_not_hash [OF w]
      by (simp add: stripMarker_def hashes23_def lit_def js_def first_def)
  qed
qed

lemma stripTitleLabel_prefix:
  assumes "colon = 58 \<or> colon = 65306" and "\<forall>c\<in>set ws. is_ws c"
    and "rest = [] \<or> \<not> is_ws (hd rest)"
  shows "stripTitleLabel (jp_title @ colon # ws @ rest) = rest"
proof -
  have t: "takeWhile is_ws (ws @ rest) = ws" and d: "dropWhile is_ws (ws @ rest) = rest"
    using assms(2,3) by (cases rest; simp)+
  obtain more where g: "star_greedy is_ws (ws @ rest) = (ws, rest) # more"
    using star_greedy_longest [of is_ws "ws @ rest"] t d by auto
  have c: "cls (\<lambda>c. c = 65306 \<or> c = 58) (colon # ws @ rest) = [ws @ rest]"
    using assms(1) by (auto simp: cls_def)
  have l: "lit [12479, 12452, 12488, 12523] (12479 # 12452 # 12488 # 12523 # colon # ws @ rest)
             = [colon # ws @ rest]"
    by (simp add: lit_def)
  show ?thesis
    by (simp add: stripTitleLabel_def jp_title_def l c g)
qed

text \<open>
  Claim C6, as the code has it. While the translation section is active, the boundary
  rules come first: a line that is a boundary switches the section and adds nothing to
  the translation. A line that is no boundary leaves the section, the title, the body and
  the vocabulary unchanged. If it starts with two or three hashes followed by white space,
  the marker and the white space after it are stripped, the first occurrence of the
  katakana label for "title" with its colon and the white space after it is removed (at
  the start of the content this leaves the text after the label), and what is left,
  unless it is empty, is appended between two pairs of asterisks and followed by two line
  feeds; every other line is appended as it is, followed by one line feed.
\<close>

theorem translation_section_line:
  assumes "currentSection st = TranslationSec"
  shows "currentSection (step st line)
           = (case boundary (trim line) of Some s \<Rightarrow> s | None \<Rightarrow> TranslationSec)
    \<and> (boundary (trim line) \<noteq> None \<longrightarrow> translationText (step st line) = translationText st)
    \<and> (boundary (trim line) = None \<longrightarrow>
          title (step st line) = title st \<and> englishBody (step st line) = englishBody st
        \<and> vocabItems (step st line) = vocabItems st
        \<and> translationText (step st line)
            = (if subHeader (trim line) then
                 (if stripTitleLabel (stripMarker (trim line)) = [] then translationText st
                  else translationText st @ js ''**''
                         @ stripTitleLabel (stripMarker (trim line)) @ js ''**'' @ [NL, NL])
               else translationText st @ line @ [NL]))
    \<and> (subHeader (trim line) \<longrightarrow>
          stripMarker (trim line) = dropWhile is_ws (dropWhile (\<lambda>c. c = 35) (trim line)))
    \<and> ((colon = 58 \<or> colon = 65306) \<and> (\<forall>c\<in>set ws. is_ws c)
         \<and> (rest = [] \<or> \<not> is_ws (hd rest))
        \<longrightarrow> stripTitleLabel (jp_title @ colon # ws @ rest) = rest)"
proof (intro conjI impI)
  show "stripTitleLabel (jp_title @ colon # ws @ rest) = rest"
    if "(colon = 58 \<or> colon = 65306) \<and> (\<forall>c\<in>set ws. is_ws c)
         \<and> (rest = [] \<or> \<not> is_ws (hd rest))"
    using that by (intro stripTitleLabel_prefix) simp_all
  show "currentSection (step st line)
           = (case boundary (trim line) of Some s \<Rightarrow> s | None \<Rightarrow> TranslationSec)"
    using assms by (simp add: step_cursor split: option.splits)
  show "translationText (step st line) = translationText st" if "boundary (trim line) \<noteq> None"
  proof -
    from that obtain s where "boundary (trim line) = Some s" by auto
    from step_boundary_content [OF this, of st] show ?thesis by simp
  qed
  show "stripMarker (trim line) = dropWhile is_ws (dropWhile (\<lambda>c. c = 35) (trim line))"
    if "subHeader (trim line)"
    using that by (rule stripMarker_subHeader)
next
  assume b: "boundary (trim line) = None"
  have s: "step st line = collect st line (trim line)"
    using b by (rule step_no_boundary)
  show "title (step st line) = title st"
    using collect_translation_section [OF assms, of line "trim line"] by (simp add: s)
  show "englishBody (step st line) = englishBody st"
    using collect_translation_section [OF assms, of line "trim line"] by (simp add: s)
  show "vocabItems (step st line) = vocabItems st"
    using collect_translation_section [OF assms, of line "trim line"] by (simp add: s)
  show "translationText (step st line)
            = (if subHeader (trim line) then
                 (if stripTitleLabel (stripMarker (trim line)) = [] then translationText st
                  else translationText st @ js ''**''
                         @ stripTitleLabel (stripMarker (trim line)) @ js ''**'' @ [NL, NL])
               else translationText st @ line @ [NL])"
    using assms by (simp add: s collect_translation)
qed

text \<open>
  Claim C6 as stated fails: in the translation section the line "### 2. More" looks like a
  heading, yet it switches to the body section and nothing is re-emitted; and the Latin
  label of "### Title: Key" is not stripped.
\<close>

theorem translation_section_line_counterexample:
  "subHeader (trim (js ''### 2. More''))
   \<and> currentSection (step (init\<lparr>currentSection := TranslationSec\<rparr>) (js ''### 2. More''))
       = EnglishSec
   \<and> translationText (step (init\<lparr>currentSection := TranslationSec\<rparr>) (js ''### 2. More'')) = []
   \<and> translationText (step (init\<lparr>currentSection := TranslationSec\<rparr>) (js ''### Title: Key''))
       = js ''**Title: Key**'' @ [NL, NL]"
  by (simp add: re_eval)

text \<open>A sub-title line with the katakana label satisfies the hypotheses.\<close>

theorem translation_section_line_witness:
  "currentSection (init\<lparr>currentSection := TranslationSec\<rparr>) = TranslationSec
   \<and> boundary (trim (js ''### '' @ jp_title @ [65306, 37749])) = None
   \<and> subHeader (trim (js ''### '' @ jp_title @ [65306, 37749]))
   \<and> translationText
        (step (init\<lparr>currentSection := TranslationSec\<rparr>) (js ''### '' @ jp_title @ [65306, 37749]))
       = js ''**'' @ [37749] @ js ''**'' @ [NL, NL]"
proof -
  let ?st = "init\<lparr>currentSection := TranslationSec\<rparr>"
  let ?l = "js ''### '' @ jp_title @ [65306, 37749]"
  have h1: "currentSection ?st = TranslationSec" by simp
  have h2: "boundary (trim ?l) = None" by (simp add: boundary_def re_eval)
  have h3: "subHeader (trim ?l)" by (simp add: re_eval)
  have h4: "stripTitleLabel (stripMarker (trim ?l)) = [37749]" by (simp add: re_eval)
  have h5: "translationText ?st = []" by (simp add: init_def)
  from translation_section_line [OF h1, where line = ?l and colon = 58 and ws = "[]"
      and rest = "[]", THEN conjunct2, THEN conjunct2, THEN conjunct1, THEN mp, OF h2]
  have "translationText (step ?st ?l)
            = (if subHeader (trim ?l) then
                 (if stripTitleLabel (stripMarker (trim ?l)) = [] then translationText ?st
                  else translationText ?st @ js ''**''
                         @ stripTitleLabel (stripMarker (trim ?l)) @ js ''**'' @ [NL, NL])
               else translationText ?st @ ?l @ [NL])"
    by (elim conjE)
  then have "translationText (step ?st ?l) = js ''**'' @ [37749] @ js ''**'' @ [NL, NL]"
    by (simp only: h3 h4 h5 if_True) simp
  with h1 h2 h3 show ?thesis by (intro conjI)
qed

section \<open>The paragraphs of the rendered text\<close>

lemma splitParas_nonempty: "splitParas cur s \<noteq> []"
  by (induction cur s rule: splitParas.induct) (auto split: option.splits)

lemma join_Cons: "xs \<noteq> [] \<Longrightarrow> join sep (x # xs) = x @ sep @ join sep xs"
  by (cases xs) simp_all

lemma replaceBr_open:
  "replaceBr pre (js ''<p>'' @ s) = js ''<p>'' @ replaceBr (pre @ js ''<p>'') s"
  by (simp add: js_def NL_def)

lemma replaceBr_close: "\<exists>y. replaceBr pre (b @ js ''</p>'') = y @ js ''</p>''"
proof (induction b arbitrary: pre)
  case Nil
  show ?case by (simp add: js_def NL_def)
next
  case (Cons c b)
  from Cons.IH [of "pre @ [c]"] obtain y
    where y: "replaceBr (pre @ [c]) (b @ js ''</p>'') = y @ js ''</p>''" by blast
  show ?case
  proof (cases "\<not> suffix (js ''</p>'') pre \<and> c = NL \<and> \<not> prefix (js ''<p>'') (b @ js ''</p>'')")
    case True
    then have "replaceBr pre ((c # b) @ js ''</p>'') = (js ''<br>'' @ y) @ js ''</p>''"
      using y by simp
    then show ?thesis by blast
  next
    case False
    then have "replaceBr pre ((c # b) @ js ''</p>'') = (c # y) @ js ''</p>''"
      using y by auto
    then show ?thesis by blast
  qed
qed

lemma replaceBr_close_nl:
  "\<exists>y. replaceBr pre (b @ js ''</p>'' @ NL # rest)
         = y @ js ''</p>'' @ NL # replaceBr (pre @ b @ js ''</p>'' @ [NL]) rest"
proof (induction b arbitrary: pre)
  case Nil
  have "suffix (js ''</p>'') (pre @ js ''</p>'')"
    by (rule suffix_appendI) simp
  then show ?case by (simp add: js_def NL_def)
next
  case (Cons c b)
  from Cons.IH [of "pre @ [c]"] obtain y
    where y: "replaceBr (pre @ [c]) (b @ js ''</p>'' @ NL # rest)
         = y @ js ''</p>'' @ NL # replaceBr (pre @ c # b @ js ''</p>'' @ [NL]) rest"
    by auto
  show ?case
  proof (cases "\<not> suffix (js ''</p>'') pre \<and> c = NL
                 \<and> \<not> prefix (js ''<p>'') (b @ js ''</p>'' @ NL # rest)")
    case True
    then have "replaceBr pre ((c # b) @ js ''</p>'' @ NL # rest)
         = (js ''<br>'' @ y) @ js ''</p>'' @ NL # replaceBr (pre @ (c # b) @ js ''</p>'' @ [NL]) rest"
      using y by simp
    then show ?thesis by blast
  next
    case False
    then have "replaceBr pre ((c # b) @ js ''</p>'' @ NL # rest)
         = (c # y) @ js ''</p>'' @ NL # replaceBr (pre @ (c # b) @ js ''</p>'' @ [NL]) rest"
      using y by auto
    then show ?thesis by blast
  qed
qed

lemma replaceBr_containers:
  "ps \<noteq> [] \<Longrightarrow>
     \<exists>qs. length qs = length ps
       \<and> replaceBr pre (join [NL] (map container ps)) = join [NL] (map container qs)"
proof (induction ps arbitrary: pre rule: list_nonempty_induct)
  case (single p)
  obtain y where "replaceBr (pre @ js ''<p>'') (p @ js ''</p>'') = y @ js ''</p>''"
    using replaceBr_close by blast
  then have "replaceBr pre (join [NL] (map container [p])) = join [NL] (map container [y])"
    by (simp add: container_def replaceBr_open)
  then show ?case by (intro exI [of _ "[y]"]) simp
next
  case (cons p ps)
  let ?rest = "join [NL] (map container ps)"
  obtain y where y: "replaceBr (pre @ js ''<p>'') (p @ js ''</p>'' @ NL # ?rest)
         = y @ js ''</p>'' @ NL # replaceBr ((pre @ js ''<p>'') @ p @ js ''</p>'' @ [NL]) ?rest"
    using replaceBr_close_nl by blast
  obtain qs where qs: "length qs = length ps"
    "replaceBr ((pre @ js ''<p>'') @ p @ js ''</p>'' @ [NL]) ?rest = join [NL] (map container qs)"
    using cons.IH by blast
  from qs(1) cons.hyps have ne: "qs \<noteq> []" by auto
  have "join [NL] (map container (p # ps)) = js ''<p>'' @ p @ js ''</p>'' @ NL # ?rest"
    using cons.hyps by (simp add: join_Cons container_def)
  then have "replaceBr pre (join [NL] (map container (p # ps)))
      = js ''<p>'' @ y @ js ''</p>'' @ NL # join [NL] (map container qs)"
    using y qs(2) by (simp only: replaceBr_open)
  also have "\<dots> = join [NL] (map container (y # qs))"
    using ne by (simp add: join_Cons container_def)
  finally show ?case
    using qs(1) by (intro exI [of _ "y # qs"]) simp
qed

lemma join_container_prefix: "qs \<noteq> [] \<Longrightarrow> prefix (js ''<p>'') (join [NL] (map container qs))"
proof (induction qs rule: list_nonempty_induct)
  case (single q)
  show ?case by (simp add: container_def)
next
  case (cons q qs)
  then show ?case by (simp add: join_Cons container_def)
qed

lemma join_container_suffix: "qs \<noteq> [] \<Longrightarrow> suffix (js ''</p>'') (join [NL] (map container qs))"
proof (induction qs rule: list_nonempty_induct)
  case (single q)
  show ?case by (simp add: container_def suffix_def)
next
  case (cons q qs)
  have "join [NL] (map container (q # qs)) = (container q @ [NL]) @ join [NL] (map container qs)"
    using cons.hyps by (simp add: join_Cons)
  moreover have "suffix (js ''</p>'') ((container q @ [NL]) @ join [NL] (map container qs))"
    using cons.IH by (rule suffix_appendI)
  ultimately show ?case by simp
qed

text \<open>
  Claim C10. For every non-empty text the result of \<open>markdownToHtml\<close> starts with the
  paragraph open marker and ends with the paragraph close marker; it consists of one or
  more paragraph containers, in order, with a single line feed between two neighbours.
\<close>

theorem markdownToHtml_paragraphs:
  assumes "t \<noteq> []"
  shows "\<exists>qs. qs \<noteq> [] \<and> markdownToHtml (Some t) = join [NL] (map container qs)
           \<and> prefix (js ''<p>'') (markdownToHtml (Some t))
           \<and> suffix (js ''</p>'') (markdownToHtml (Some t))"
proof -
  let ?ps = "map trim (splitParas [] (replaceEm None (replaceBold t)))"
  have ne: "?ps \<noteq> []" by (simp add: splitParas_nonempty)
  have m: "markdownToHtml (Some t) = replaceBr [] (join [NL] (map container ?ps))"
    using assms by (simp add: markdownToHtml_def container_def comp_def)
  from replaceBr_containers [OF ne, of "[]"] obtain qs where
    qs: "length qs = length ?ps"
      "replaceBr [] (join [NL] (map container ?ps)) = join [NL] (map container qs)"
    by blast
  from qs(1) ne have q: "qs \<noteq> []" by auto
  have e: "markdownToHtml (Some t) = join [NL] (map container qs)"
    using m qs(2) by simp
  show ?thesis
    using q e join_container_prefix [OF q] join_container_suffix [OF q]
    by (intro exI [of _ qs]) simp
qed

text \<open>A text of two paragraphs satisfies the hypothesis.\<close>

theorem markdownToHtml_paragraphs_witness:
  "twoParas \<noteq> []
   \<and> markdownToHtml (Some twoParas) = js ''<p>a</p>'' @ [NL] @ js ''<p>b<br>c</p>''
   \<and> prefix (js ''<p>'') (markdownToHtml (Some twoParas))
   \<and> suffix (js ''</p>'') (markdownToHtml (Some twoParas))"
proof -
  have h: "twoParas \<noteq> []" by (simp add: twoParas_def js_def)
  have v: "markdownToHtml (Some twoParas) = js ''<p>a</p>'' @ [NL] @ js ''<p>b<br>c</p>''"
    by (simp add: twoParas_def re_eval)
  from markdownToHtml_paragraphs [OF h]
  have p: "prefix (js ''<p>'') (markdownToHtml (Some twoParas))
      \<and> suffix (js ''</p>'') (markdownToHtml (Some twoParas))"
    by (elim exE conjE) (rule conjI)
  from h v p [THEN conjunct1] p [THEN conjunct2] show ?thesis by (intro conjI)
qed

section \<open>The order of backtracking\<close>

lemma bind_append: "List.bind (xs @ ys) f = List.bind xs f @ List.bind ys f"
  by (induction xs) simp_all

lemma bind_map: "List.bind (map g xs) f = List.bind xs (\<lambda>x. f (g x))"
  by (induction xs) simp_all

lemma first_Nil: "first [] = None"
  by (simp add: first_def)

lemma first_Cons: "first (x # xs) = Some x"
  by (simp add: first_def)

lemma first_append:
  "first (xs @ ys) = (case first xs of Some y \<Rightarrow> Some y | None \<Rightarrow> first ys)"
  by (cases xs) (simp_all add: first_def)

lemma bind_empty_iff: "List.bind xs f = [] \<longleftrightarrow> (\<forall>x\<in>set xs. f x = [])"
  by (induction xs) auto

lemma first_bind_skip:
  "\<forall>x\<in>set pre. f x = [] \<Longrightarrow> first (List.bind (pre @ x # post) f)
     = (case first (f x) of Some y \<Rightarrow> Some y | None \<Rightarrow> first (List.bind post f))"
  by (simp add: bind_append first_append bind_empty_iff [THEN iffD2])

lemma star_greedy_complete:
  "\<forall>c\<in>set m. P c \<Longrightarrow> (m, r) \<in> set (star_greedy P (m @ r))"
proof (induction m)
  case Nil
  show ?case by (cases r) simp_all
next
  case (Cons a m)
  then show ?case by force
qed

lemma plus_greedy_complete:
  "m \<noteq> [] \<Longrightarrow> \<forall>c\<in>set m. P c \<Longrightarrow> (m, r) \<in> set (plus_greedy P (m @ r))"
  by (cases m) (force simp: plus_greedy_def dest: star_greedy_complete [where r = r])+

lemma star_lazy_complete:
  "\<forall>c\<in>set m. P c \<Longrightarrow> (m, r) \<in> set (star_lazy P (m @ r))"
proof (induction m)
  case Nil
  show ?case by (cases r) simp_all
next
  case (Cons a m)
  then show ?case by force
qed

lemma plus_lazy_complete:
  "m \<noteq> [] \<Longrightarrow> \<forall>c\<in>set m. P c \<Longrightarrow> (m, r) \<in> set (plus_lazy P (m @ r))"
  by (cases m) (force simp: plus_lazy_def dest: star_lazy_complete [where r = r])+

text \<open>The greedy star reports the longest run for which the rest of the pattern matches.\<close>

lemma star_greedy_first:
  "first (List.bind (star_greedy P s) f) = Some y \<Longrightarrow>
     \<exists>m r. s = m @ r \<and> (\<forall>c\<in>set m. P c) \<and> first (f (m, r)) = Some y
       \<and> (\<forall>m' r'. s = m' @ r' \<and> (\<forall>c\<in>set m'. P c) \<and> length m < length m' \<longrightarrow> f (m', r') = [])"
proof (induction s arbitrary: f)
  case Nil
  then show ?case by simp
next
  case (Cons c cs)
  let ?f' = "\<lambda>(m, r). f (c # m, r)"
  show ?case
  proof (cases "P c \<and> first (List.bind (star_greedy P cs) ?f') \<noteq> None")
    case True
    then have "first (List.bind (star_greedy P cs) ?f') = Some y"
      using Cons.prems by (auto simp: bind_append bind_map first_append case_prod_unfold)
    from Cons.IH [OF this] obtain m r where
      mr: "cs = m @ r" "\<forall>c\<in>set m. P c" "first (f (c # m, r)) = Some y"
      and mx: "\<forall>m' r'. cs = m' @ r' \<and> (\<forall>c\<in>set m'. P c) \<and> length m < length m'
                 \<longrightarrow> f (c # m', r') = []"
      by auto
    have "\<forall>m' r'. c # cs = m' @ r' \<and> (\<forall>c\<in>set m'. P c) \<and> length (c # m) < length m'
                 \<longrightarrow> f (m', r') = []"
    proof (intro allI impI)
      fix m' r'
      assume a: "c # cs = m' @ r' \<and> (\<forall>c\<in>set m'. P c) \<and> length (c # m) < length m'"
      then obtain m'' where "m' = c # m''" by (cases m') auto
      with a mx show "f (m', r') = []" by auto
    qed
    with mr True show ?thesis
      by (intro exI [of _ "c # m"] exI [of _ r]) auto
  next
    case False
    have e: "first (f ([], c # cs)) = Some y"
    proof (cases "P c")
      case True
      with False have "first (List.bind (star_greedy P cs) ?f') = None" by simp
      with True Cons.prems show ?thesis
        by (simp add: bind_append bind_map first_append case_prod_unfold)
    next
      case False
      with Cons.prems show ?thesis by simp
    qed
    have "\<forall>m' r'. c # cs = m' @ r' \<and> (\<forall>c\<in>set m'. P c) \<and> length ([]::jsstring) < length m'
                 \<longrightarrow> f (m', r') = []"
    proof (intro allI impI)
      fix m' r'
      assume a: "c # cs = m' @ r' \<and> (\<forall>c\<in>set m'. P c) \<and> length ([]::jsstring) < length m'"
      then obtain m'' where m'': "m' = c # m''" by (cases m') auto
      with a have pc: "P c" and cs: "cs = m'' @ r'" and all: "\<forall>c\<in>set m''. P c" by auto
      from False pc have "List.bind (star_greedy P cs) ?f' = []"
        by (simp add: first_None_iff)
      moreover have "(m'', r') \<in> set (star_greedy P cs)"
        unfolding cs using all by (rule star_greedy_complete)
      ultimately have "?f' (m'', r') = []"
        by (simp only: bind_empty_iff)
      then show "f (m', r') = []" by (simp add: m'')
    qed
    with e show ?thesis
      by (intro exI [of _ "[]"] exI [of _ "c # cs"]) simp
  qed
qed

lemma plus_greedy_first:
  assumes "first (List.bind (plus_greedy P s) f) = Some y"
  shows "\<exists>m r. s = m @ r \<and> m \<noteq> [] \<and> (\<forall>c\<in>set m. P c) \<and> first (f (m, r)) = Some y
       \<and> (\<forall>m' r'. s = m' @ r' \<and> (\<forall>c\<in>set m'. P c) \<and> length m < length m' \<longrightarrow> f (m', r') = [])"
proof (cases s)
  case Nil
  with assms show ?thesis by (simp add: plus_greedy_def first_def)
next
  case (Cons c cs)
  let ?f' = "\<lambda>(m, r). f (c # m, r)"
  from assms Cons have pc: "P c"
    by (auto simp: plus_greedy_def first_def split: if_splits)
  with assms Cons have "first (List.bind (star_greedy P cs) ?f') = Some y"
    by (simp add: plus_greedy_def bind_map case_prod_unfold)
  from star_greedy_first [OF this] obtain m r where
      mr: "cs = m @ r" "\<forall>c\<in>set m. P c" "first (f (c # m, r)) = Some y"
      and mx: "\<forall>m' r'. cs = m' @ r' \<and> (\<forall>c\<in>set m'. P c) \<and> length m < length m'
                 \<longrightarrow> f (c # m', r') = []"
    by auto
  have "\<forall>m' r'. s = m' @ r' \<and> (\<forall>c\<in>set m'. P c) \<and> length (c # m) < length m'
                 \<longrightarrow> f (m', r') = []"
  proof (intro allI impI)
    fix m' r'
    assume a: "s = m' @ r' \<and> (\<forall>c\<in>set m'. P c) \<and> length (c # m) < length m'"
    then obtain m'' where "m' = c # m''" using Cons by (cases m') auto
    with a mx Cons show "f (m', r') = []" by auto
  qed
  with mr pc Cons show ?thesis
    by (intro exI [of _ "c # m"] exI [of _ r]) auto
qed

lemma first_bind_Some: "first (List.bind xs f) = Some y \<Longrightarrow> \<exists>x\<in>set xs. first (f x) = Some y"
proof (induction xs)
  case Nil
  then show ?case by (simp add: first_Nil)
next
  case (Cons x xs)
  then show ?case by (cases "first (f x)") (auto simp: first_append)
qed

lemma dropWhile_hd_in: "dropWhile P xs \<noteq> [] \<Longrightarrow> \<exists>c\<in>set xs. \<not> P c"
  by auto

lemma trim_Nil_iff: "trim s = [] \<longleftrightarrow> (\<forall>c\<in>set s. is_ws c)"
proof
  assume "trim s = []"
  then have a: "\<forall>c\<in>set (dropWhile is_ws s). is_ws c"
    by (simp add: trim_def)
  have "dropWhile is_ws s = []"
  proof (rule ccontr)
    assume n: "dropWhile is_ws s \<noteq> []"
    then have "\<not> is_ws (hd (dropWhile is_ws s))" by (rule hd_dropWhile)
    moreover have "hd (dropWhile is_ws s) \<in> set (dropWhile is_ws s)" using n by simp
    ultimately show False using a by blast
  qed
  then show "\<forall>c\<in>set s. is_ws c" by simp
next
  assume "\<forall>c\<in>set s. is_ws c"
  then have "dropWhile is_ws s = []" by simp
  then have "rev (dropWhile is_ws (rev (dropWhile is_ws s))) = rev (dropWhile is_ws (rev []))"
    by (rule arg_cong)
  then show "trim s = []" by (simp add: trim_def)
qed

lemma last_dropWhile_keep: "dropWhile P xs \<noteq> [] \<Longrightarrow> last (dropWhile P xs) = last xs"
  by (induction xs) (auto split: if_splits)

lemma trim_ends:
  assumes "trim s \<noteq> []"
  shows "\<not> is_ws (hd (trim s)) \<and> \<not> is_ws (last (trim s))"
proof -
  let ?d = "dropWhile is_ws s"
  let ?e = "dropWhile is_ws (rev ?d)"
  from assms have e: "?e \<noteq> []" by (simp add: trim_def)
  have d: "?d \<noteq> []"
  proof
    assume a: "?d = []"
    have "?e = []" unfolding a by simp
    with e show False by (rule notE)
  qed
  have "last (trim s) = hd ?e" using e by (simp add: trim_def last_rev)
  moreover have "\<not> is_ws (hd ?e)" using e by (rule hd_dropWhile)
  moreover have "hd (trim s) = last ?e" using e by (simp add: trim_def hd_rev)
  moreover have "last ?e = last (rev ?d)" using e by (rule last_dropWhile_keep)
  moreover have "last (rev ?d) = hd ?d" using d by (simp add: last_rev)
  moreover have "\<not> is_ws (hd ?d)" using d by (rule hd_dropWhile)
  ultimately show ?thesis by simp
qed

lemma ws_is_sep: "is_ws c \<Longrightarrow> is_sep c"
  by (simp add: is_sep_def)

lemma not_dot_ws: "\<not> dot c \<Longrightarrow> is_ws c"
  by (auto simp: dot_def is_lt_def is_ws_def)

lemma plus_greedy_Nil_iff: "plus_greedy P s = [] \<longleftrightarrow> (s = [] \<or> \<not> P (hd s))"
proof (cases s)
  case Nil
  then show ?thesis by (simp add: plus_greedy_def)
next
  case (Cons c cs)
  obtain rest where "star_greedy P cs = (takeWhile P cs, dropWhile P cs) # rest"
    using star_greedy_longest by blast
  with Cons show ?thesis by (simp add: plus_greedy_def)
qed

lemma bind_single_Nil_iff: "List.bind xs (\<lambda>(g, v). [F g]) = [] \<longleftrightarrow> xs = []"
  by (cases xs) (auto simp: case_prod_unfold)

text \<open>
  A greedy run over a class that holds all white space, followed by \<open>(.+)\<close>, on a text that
  does not end with white space: the group starts with a code unit that is not white
  space.
\<close>

lemma run_then_text:
  assumes s: "s = m @ r" and m: "\<forall>c\<in>set m. P c" and wp: "\<And>c. is_ws c \<Longrightarrow> P c"
    and y: "first (List.bind (plus_greedy dot r) (\<lambda>(g, v). [F g])) = Some y"
    and mx: "\<forall>m' r'. s = m' @ r' \<and> (\<forall>c\<in>set m'. P c) \<and> length m < length m'
               \<longrightarrow> List.bind (plus_greedy dot r') (\<lambda>(g, v). [F g]) = []"
    and l: "s = [] \<or> \<not> is_ws (last s)"
  shows "\<exists>g. y = F g \<and> g \<noteq> [] \<and> \<not> is_ws (hd g)"
proof -
  from first_bind_Some [OF y] obtain g v where
    gv: "(g, v) \<in> set (plus_greedy dot r)" and yg: "y = F g"
    by (auto simp: first_Cons)
  from plus_greedy_sound [OF gv] have r: "r = g @ v" and g: "g \<noteq> []" by simp_all
  have "\<not> is_ws (hd r)"
  proof
    assume w: "is_ws (hd r)"
    let ?u = "takeWhile P r"
    let ?v = "dropWhile P r"
    from r g have rne: "r \<noteq> []" by simp
    with w have une: "?u \<noteq> []" by (cases r) (auto simp: wp)
    have "s = (m @ ?u) @ ?v" by (simp add: s)
    moreover have "\<forall>c\<in>set (m @ ?u). P c" using m by (auto dest: set_takeWhileD)
    moreover have "length m < length (m @ ?u)" using une by simp
    ultimately have "List.bind (plus_greedy dot ?v) (\<lambda>(g, v). [F g]) = []" using mx by blast
    then have "plus_greedy dot ?v = []" by (simp add: bind_single_Nil_iff)
    then have v: "?v = [] \<or> \<not> dot (hd ?v)" by (simp add: plus_greedy_Nil_iff)
    have vn: "?v = []"
    proof (rule ccontr)
      assume n: "?v \<noteq> []"
      then have "\<not> P (hd ?v)" by (rule hd_dropWhile)
      moreover from v n have "is_ws (hd ?v)" by (auto dest: not_dot_ws)
      ultimately show False by (simp add: wp)
    qed
    then have allP: "\<forall>c\<in>set r. P c" by simp
    from l s rne have lr: "\<not> is_ws (last r)" by simp
    have "s = (m @ butlast r) @ [last r]" using rne by (simp add: s)
    moreover have "\<forall>c\<in>set (m @ butlast r). P c"
      using m allP by (auto dest: in_set_butlastD)
    moreover have "butlast r \<noteq> []"
    proof
      assume "butlast r = []"
      with rne have "r = [last r]" by (metis append_butlast_last_id append_Nil)
      then have "hd r = last r" by (metis list.sel(1))
      with w lr show False by simp
    qed
    then have "length m < length (m @ butlast r)" by (simp del: length_butlast)
    ultimately have "List.bind (plus_greedy dot [last r]) (\<lambda>(g, v). [F g]) = []"
      using mx by blast
    then have "plus_greedy dot [last r] = []" by (simp add: bind_single_Nil_iff)
    then have "\<not> dot (last r)" by (simp add: plus_greedy_Nil_iff)
    then have "is_ws (last r)" by (rule not_dot_ws)
    with lr show False by simp
  qed
  moreover from r g have "hd g = hd r" by (cases g) simp_all
  ultimately show ?thesis using yg g by auto
qed

lemma sep_then_text:
  assumes f: "first (List.bind (plus_greedy is_sep s)
                (\<lambda>(u, r). List.bind (plus_greedy dot r) (\<lambda>(g, v). [F g]))) = Some y"
    and l: "s = [] \<or> \<not> is_ws (last s)"
  shows "\<exists>g. y = F g \<and> g \<noteq> [] \<and> \<not> is_ws (hd g)"
proof -
  from plus_greedy_first [OF f] obtain m r where
    s: "s = m @ r" and m: "\<forall>c\<in>set m. is_sep c"
    and y: "first (List.bind (plus_greedy dot r) (\<lambda>(g, v). [F g])) = Some y"
    and mx: "\<forall>m' r'. s = m' @ r' \<and> (\<forall>c\<in>set m'. is_sep c) \<and> length m < length m'
               \<longrightarrow> List.bind (plus_greedy dot r') (\<lambda>(g, v). [F g]) = []"
    by auto
  from s m ws_is_sep y mx l show ?thesis by (rule run_then_text)
qed

lemma ws_then_text:
  assumes f: "first (List.bind (star_greedy is_ws s)
                (\<lambda>(u, r). List.bind (plus_greedy dot r) (\<lambda>(g, v). [F g]))) = Some y"
    and l: "s = [] \<or> \<not> is_ws (last s)"
  shows "\<exists>g. y = F g \<and> g \<noteq> [] \<and> \<not> is_ws (hd g)"
proof -
  from star_greedy_first [OF f] obtain m r where
    s: "s = m @ r" and m: "\<forall>c\<in>set m. is_ws c"
    and y: "first (List.bind (plus_greedy dot r) (\<lambda>(g, v). [F g])) = Some y"
    and mx: "\<forall>m' r'. s = m' @ r' \<and> (\<forall>c\<in>set m'. is_ws c) \<and> length m < length m'
               \<longrightarrow> List.bind (plus_greedy dot r') (\<lambda>(g, v). [F g]) = []"
    by auto
  from s m _ y mx l show ?thesis by (rule run_then_text)
qed

lemma first_bindE:
  assumes "first (List.bind xs f) = Some y"
  obtains x where "x \<in> set xs" and "first (f x) = Some y"
  using first_bind_Some [OF assms] by blast

lemma first_bind_single:
  "first (List.bind xs (\<lambda>m. [F m])) = Some y \<Longrightarrow> \<exists>m. first xs = Some m \<and> y = F m"
  by (cases xs) (simp_all add: first_Nil first_Cons first_append)

lemma sepText_first:
  assumes "first (sepText s) = Some g" and "s = [] \<or> \<not> is_ws (last s)"
  shows "g \<noteq> [] \<and> \<not> is_ws (hd g)"
  using sep_then_text [where F = "\<lambda>g. g", OF assms(1) [unfolded sepText_def] assms(2)]
  by simp

lemma vocabMatch_meaning:
  "vocabMatch t = Some (w, m) \<Longrightarrow> t = [] \<or> \<not> is_ws (last t) \<Longrightarrow> m \<noteq> [] \<and> \<not> is_ws (hd m)"
  apply (unfold vocabMatch_def)
  apply (erule first_bindE)
  apply (erule first_bindE)
  apply (clarsimp simp: cls_iff)
  apply (erule first_bindE)
  apply (erule first_bindE)
  apply (clarsimp simp: lit_iff)
  apply (erule first_bindE)
  apply (drule first_bind_single)
  apply (clarsimp simp: lit_iff)
  apply (drule star_greedy_sound)
  apply (drule plus_lazy_sound)
  apply (drule sepText_first)
  apply (auto simp: js_def)
  done

section \<open>The entries of the vocabulary\<close>

lemma trim_last: "trim s = [] \<or> \<not> is_ws (last (trim s))"
  using trim_ends [of s] by blast

lemma new_entry_ok:
  assumes "vocabMatch (trim line) = Some (g1, g2)"
  shows "entry_ok \<lparr>word = trim g1, meaning = trim g2\<rparr>"
proof -
  from vocabMatch_meaning [OF assms trim_last] have "g2 \<noteq> []" "\<not> is_ws (hd g2)"
    by simp_all
  then have "\<exists>c\<in>set g2. \<not> is_ws c" by (cases g2) auto
  then have "trim g2 \<noteq> []" by (simp add: trim_Nil_iff)
  then show ?thesis
    using trim_ends [of g2] trim_ends [of g1] by (auto simp: entry_ok_def)
qed

lemma collect_entries_ok:
  assumes "\<forall>e\<in>set (vocabItems st). entry_ok e"
  shows "\<forall>e\<in>set (vocabItems (collect st line (trim line))). entry_ok e"
proof (cases "currentSection st = VocabSec \<and> vocabMatch (trim line) \<noteq> None")
  case True
  then obtain g1 g2 where g: "vocabMatch (trim line) = Some (g1, g2)" by auto
  with True have "vocabItems (collect st line (trim line))
      = vocabItems st @ [\<lparr>word = trim g1, meaning = trim g2\<rparr>]"
    by (simp add: collect_def)
  then show ?thesis using assms new_entry_ok [OF g] by auto
next
  case False
  then have "currentSection st \<noteq> VocabSec \<or> vocabMatch (trim line) = None"
    by blast
  then have "vocabItems (collect st line (trim line)) = vocabItems st"
    by (rule collect_vocab_unchanged)
  then show ?thesis using assms by simp
qed

lemma step_entries_ok:
  assumes "\<forall>e\<in>set (vocabItems st). entry_ok e"
  shows "\<forall>e\<in>set (vocabItems (step st line)). entry_ok e"
proof (cases "boundary (trim line)")
  case None
  then show ?thesis using collect_entries_ok [OF assms] by (simp add: step_no_boundary)
next
  case (Some s)
  from step_boundary_content [OF this, of st] show ?thesis using assms by simp
qed

lemma foldl_entries_ok:
  "\<forall>e\<in>set (vocabItems st). entry_ok e \<Longrightarrow> \<forall>e\<in>set (vocabItems (foldl step st ls)). entry_ok e"
proof (induction ls arbitrary: st)
  case Nil
  then show ?case by simp
next
  case (Cons l ls)
  from Cons.IH [OF step_entries_ok [OF Cons.prems]] show ?case by simp
qed

lemma parseTemplate_vocab: "parseTemplate text = Some r \<Longrightarrow> vocab r = vocabItems (scan text)"
  by (auto simp: parseTemplate_def Let_def split: if_splits)

text \<open>
  Claim C9, as the code has it. In every record that \<open>parseTemplate\<close> returns, each
  vocabulary entry has a non-empty meaning, and neither the word nor the meaning starts
  or ends with white space. The word may be empty.
\<close>

theorem vocab_entries_trimmed:
  assumes "parseTemplate text = Some r" and "e \<in> set (vocab r)"
  shows "meaning e \<noteq> [] \<and> \<not> is_ws (hd (meaning e)) \<and> \<not> is_ws (last (meaning e))
     \<and> (word e = [] \<or> (\<not> is_ws (hd (word e)) \<and> \<not> is_ws (last (word e))))"
proof -
  have "\<forall>e\<in>set (vocabItems (foldl step init (split_nl text))). entry_ok e"
    by (rule foldl_entries_ok) (simp add: init_def)
  with assms have "entry_ok e"
    by (simp add: parseTemplate_vocab scan_def)
  then show ?thesis by (simp add: entry_ok_def)
qed

text \<open>
  Claim C9 as stated fails: a bold span that holds only a space is a match of the
  vocabulary pattern, and trimming leaves the empty word in a record that is returned.
\<close>

theorem vocab_entries_trimmed_counterexample:
  "parseTemplate inputC9
     = Some \<lparr>rtitle = js ''T'', english = js ''body'',
             vocab = [\<lparr>word = [], meaning = js ''x''\<rparr>], translation = []\<rparr>"
  by (simp add: inputC9_def re_eval)

text \<open>The entry of Scenario A satisfies the hypotheses.\<close>

theorem vocab_entries_trimmed_witness:
  "meaning \<lparr>word = js ''rusty'', meaning = js ''covered with rust''\<rparr> \<noteq> []
   \<and> \<not> is_ws (hd (meaning \<lparr>word = js ''rusty'', meaning = js ''covered with rust''\<rparr>))
   \<and> \<not> is_ws (last (meaning \<lparr>word = js ''rusty'', meaning = js ''covered with rust''\<rparr>))
   \<and> \<not> is_ws (hd (word \<lparr>word = js ''rusty'', meaning = js ''covered with rust''\<rparr>))
   \<and> \<not> is_ws (last (word \<lparr>word = js ''rusty'', meaning = js ''covered with rust''\<rparr>))"
proof -
  let ?e = "\<lparr>word = js ''rusty'', meaning = js ''covered with rust''\<rparr>"
  let ?r = "\<lparr>rtitle = js ''The Lost Key'',
           english = js ''She found a **rusty** key.'',
           vocab = [?e],
           translation = [24444, 22899, 12399, 37638, 12403, 12383, 37749, 12434, 35211,
                          12388, 12369, 12383, 12290]\<rparr>"
  have h1: "parseTemplate scenarioA = Some ?r" by (rule scenarioA_value)
  have h2: "?e \<in> set (vocab ?r)" by simp
  have h3: "word ?e \<noteq> []" by (simp add: js_def)
  from vocab_entries_trimmed [OF h1 h2] h3 show ?thesis by blast
qed

section \<open>Lines of the vocabulary section\<close>

lemma lit_self: "lit p (p @ r) = [r]"
  by (simp add: lit_def)

lemma cls_hit: "P c \<Longrightarrow> cls P (c # r) = [r]"
  by (simp add: cls_def)

lemma first_bind_hd: "f x \<noteq> [] \<Longrightarrow> first (List.bind (x # xs) f) = first (f x)"
  by (cases "f x") (simp_all add: first_Cons)

lemma plus_greedy_longest:
  "P c \<Longrightarrow> \<exists>rest. plus_greedy P (c # cs) = (c # takeWhile P cs, dropWhile P cs) # rest"
  using star_greedy_longest [of P cs] by (auto simp: plus_greedy_def)

lemma star_lazy_prefixes:
  "\<forall>c\<in>set w. P c \<Longrightarrow>
     \<exists>pre post. star_lazy P (w @ r) = pre @ (w, r) # post
       \<and> (\<forall>x\<in>set pre. \<exists>u. u \<noteq> [] \<and> w = fst x @ u \<and> snd x = u @ r)"
proof (induction w)
  case Nil
  show ?case by (cases r) (auto intro: exI [of _ "[]"])
next
  case (Cons a w)
  then obtain pre post where p: "star_lazy P (w @ r) = pre @ (w, r) # post"
    and q: "\<forall>x\<in>set pre. \<exists>u. u \<noteq> [] \<and> w = fst x @ u \<and> snd x = u @ r"
    by auto
  let ?f = "\<lambda>(m, r). (a # m, r)"
  have "star_lazy P ((a # w) @ r) = (([], (a # w) @ r) # map ?f pre) @ (a # w, r) # map ?f post"
    using Cons.prems p by simp
  moreover have "\<forall>x\<in>set (([], (a # w) @ r) # map ?f pre).
      \<exists>u. u \<noteq> [] \<and> a # w = fst x @ u \<and> snd x = u @ r"
    using q by (auto simp: case_prod_unfold)
  ultimately show ?case by blast
qed

lemma plus_lazy_prefixes:
  assumes "w \<noteq> []" and "\<forall>c\<in>set w. P c"
  shows "\<exists>pre post. plus_lazy P (w @ r) = pre @ (w, r) # post
       \<and> (\<forall>x\<in>set pre. \<exists>u. u \<noteq> [] \<and> w = fst x @ u \<and> snd x = u @ r)"
proof -
  from assms obtain a w' where w: "w = a # w'" by (cases w) auto
  with assms have "\<forall>c\<in>set w'. P c" and a: "P a" by simp_all
  from star_lazy_prefixes [OF this(1), of r] obtain pre post
    where p: "star_lazy P (w' @ r) = pre @ (w', r) # post"
    and q: "\<forall>x\<in>set pre. \<exists>u. u \<noteq> [] \<and> w' = fst x @ u \<and> snd x = u @ r"
    by auto
  let ?f = "\<lambda>(m, r). (a # m, r)"
  have "plus_lazy P (w @ r) = map ?f pre @ (w, r) # map ?f post"
    using a p by (simp add: plus_lazy_def w)
  moreover have "\<forall>x\<in>set (map ?f pre). \<exists>u. u \<noteq> [] \<and> w = fst x @ u \<and> snd x = u @ r"
    using q by (auto simp: case_prod_unfold w)
  ultimately show ?thesis by blast
qed

lemma sepText_exact:
  assumes "sep \<noteq> []" and "\<forall>c\<in>set sep. is_sep c"
    and "m \<noteq> []" and "\<forall>c\<in>set m. dot c" and "\<not> is_sep (hd m)"
  shows "first (sepText (sep @ m)) = Some m"
proof -
  from assms obtain c sep' where sep: "sep = c # sep'" by (cases sep) auto
  from assms obtain d m' where m: "m = d # m'" by (cases m) auto
  have t: "takeWhile is_sep (sep' @ m) = sep'" and dr: "dropWhile is_sep (sep' @ m) = m"
    using assms sep m by simp_all
  obtain rest where g: "plus_greedy is_sep (sep @ m) = (sep, m) # rest"
    using plus_greedy_longest [of is_sep c "sep' @ m"] assms(2) t dr by (auto simp: sep)
  have t2: "takeWhile dot m' = m'" and d2: "dropWhile dot m' = []"
    using assms(4) m by simp_all
  obtain rest2 where g2: "plus_greedy dot m = (m, []) # rest2"
    using plus_greedy_longest [of dot d m'] assms(4) t2 d2 by (auto simp: m)
  show ?thesis
    by (simp add: sepText_def g g2 first_Cons)
qed

lemma sepText_nonempty:
  assumes "sep \<noteq> []" and "\<forall>c\<in>set sep. is_sep c" and "m \<noteq> []" and "dot (hd m)"
  shows "sepText (sep @ m) \<noteq> []"
proof -
  have "(sep, m) \<in> set (plus_greedy is_sep (sep @ m))"
    using assms(1,2) by (rule plus_greedy_complete)
  moreover have "plus_greedy dot m \<noteq> []"
    using assms(3,4) by (simp add: plus_greedy_Nil_iff)
  then have "List.bind (plus_greedy dot m) (\<lambda>(g, v). [g]) \<noteq> []"
    by (simp add: bind_single_Nil_iff [where F = "\<lambda>g. g"])
  ultimately show ?thesis
    unfolding sepText_def by (subst bind_nonempty) (force simp: case_prod_unfold)
qed

lemma first_bind_hd_Some: "first (f x) = Some y \<Longrightarrow> first (List.bind (x # xs) f) = Some y"
  by (cases "f x") (simp_all add: first_Nil first_Cons)

lemma lit_stars_miss: "u \<noteq> [] \<Longrightarrow> hd u \<noteq> 42 \<Longrightarrow> lit (js ''**'') (u @ r) = []"
  by (cases u) (simp_all add: lit_def js_def)

lemma star_not_ws: "\<not> is_ws 42"
  by (simp add: is_ws_def)

lemma vocabMatch_exists:
  assumes "is_bullet b" and "\<forall>c\<in>set ws. is_ws c"
    and "w \<noteq> []" and "\<forall>c\<in>set w. dot c"
    and "sep \<noteq> []" and "\<forall>c\<in>set sep. is_sep c"
    and "m \<noteq> []" and "dot (hd m)"
  shows "vocabMatch (b # ws @ js ''**'' @ w @ js ''**'' @ sep @ m) \<noteq> None"
proof -
  let ?r4 = "sep @ m"
  let ?r3 = "js ''**'' @ ?r4"
  let ?r2 = "w @ ?r3"
  let ?r1 = "js ''**'' @ ?r2"
  let ?r0 = "ws @ ?r1"
  have 1: "?r0 \<in> set (cls is_bullet (b # ?r0))"
    using assms(1) by (simp add: cls_hit)
  have 2: "(ws, ?r1) \<in> set (star_greedy is_ws ?r0)"
    using assms(2) by (rule star_greedy_complete)
  have 3: "?r2 \<in> set (lit (js ''**'') ?r1)"
    by (simp add: lit_self)
  have 4: "(w, ?r3) \<in> set (plus_lazy dot ?r2)"
    using assms(3,4) by (rule plus_lazy_complete)
  have 5: "?r4 \<in> set (lit (js ''**'') ?r3)"
    by (simp add: lit_self)
  have "sepText ?r4 \<noteq> []"
    using assms(5-8) by (rule sepText_nonempty)
  then obtain g where 6: "g \<in> set (sepText ?r4)"
    by (cases "sepText ?r4") auto
  have "List.bind (sepText ?r4) (\<lambda>m'. [(w, m')]) \<noteq> []"
    using 6 by (subst bind_nonempty) blast
  then have "List.bind (lit (js ''**'') ?r3) (\<lambda>r4. List.bind (sepText r4) (\<lambda>m'. [(w, m')])) \<noteq> []"
    using 5 by (subst bind_nonempty) blast
  then have "List.bind (plus_lazy dot ?r2)
      (\<lambda>(w', r3). List.bind (lit (js ''**'') r3) (\<lambda>r4. List.bind (sepText r4) (\<lambda>m'. [(w', m')]))) \<noteq> []"
    using 4 by (subst bind_nonempty) force
  then have "List.bind (lit (js ''**'') ?r1) (\<lambda>r2. List.bind (plus_lazy dot r2)
      (\<lambda>(w', r3). List.bind (lit (js ''**'') r3) (\<lambda>r4. List.bind (sepText r4) (\<lambda>m'. [(w', m')])))) \<noteq> []"
    using 3 by (subst bind_nonempty) blast
  then have "List.bind (star_greedy is_ws ?r0) (\<lambda>(u, r1). List.bind (lit (js ''**'') r1)
      (\<lambda>r2. List.bind (plus_lazy dot r2)
      (\<lambda>(w', r3). List.bind (lit (js ''**'') r3) (\<lambda>r4. List.bind (sepText r4) (\<lambda>m'. [(w', m')]))))) \<noteq> []"
    using 2 by (subst bind_nonempty) force
  then have "List.bind (cls is_bullet (b # ?r0)) (\<lambda>r0. List.bind (star_greedy is_ws r0)
      (\<lambda>(u, r1). List.bind (lit (js ''**'') r1)
      (\<lambda>r2. List.bind (plus_lazy dot r2)
      (\<lambda>(w', r3). List.bind (lit (js ''**'') r3) (\<lambda>r4. List.bind (sepText r4) (\<lambda>m'. [(w', m')])))))) \<noteq> []"
    using 1 by (subst bind_nonempty) blast
  then show ?thesis
    unfolding vocabMatch_def first_None_iff by simp
qed

lemma vocabMatch_exact:
  assumes "is_bullet b" and "\<forall>c\<in>set ws. is_ws c"
    and "w \<noteq> []" and "\<forall>c\<in>set w. dot c" and "\<forall>c\<in>set w. c \<noteq> 42"
    and "sep \<noteq> []" and "\<forall>c\<in>set sep. is_sep c"
    and "m \<noteq> []" and "\<forall>c\<in>set m. dot c" and "\<not> is_sep (hd m)"
  shows "vocabMatch (b # ws @ js ''**'' @ w @ js ''**'' @ sep @ m) = Some (w, m)"
proof -
  let ?r4 = "sep @ m"
  let ?r3 = "js ''**'' @ ?r4"
  let ?r2 = "w @ ?r3"
  let ?r1 = "js ''**'' @ ?r2"
  let ?r0 = "ws @ ?r1"
  let ?k4 = "\<lambda>(w', r3). List.bind (lit (js ''**'') r3)
               (\<lambda>r4. List.bind (sepText r4) (\<lambda>m'. [(w', m')]))"
  let ?k2 = "\<lambda>(u, r1). List.bind (lit (js ''**'') r1) (\<lambda>r2. List.bind (plus_lazy dot r2) ?k4)"
  from sepText_exact [OF assms(6,7,8,9,10)] obtain rest where "sepText ?r4 = m # rest"
    by (cases "sepText ?r4") (simp_all add: first_Nil first_Cons)
  then have 6: "first (List.bind (sepText ?r4) (\<lambda>m'. [(w, m')])) = Some (w, m)"
    by (simp add: first_Cons)
  have 5: "first (?k4 (w, ?r3)) = Some (w, m)"
    using 6 by (simp add: lit_self)
  obtain pre post where p: "plus_lazy dot ?r2 = pre @ (w, ?r3) # post"
    and q: "\<forall>x\<in>set pre. \<exists>u. u \<noteq> [] \<and> w = fst x @ u \<and> snd x = u @ ?r3"
    using plus_lazy_prefixes [OF assms(3,4), of ?r3] by blast
  have "\<forall>x\<in>set pre. ?k4 x = []"
  proof
    fix x assume "x \<in> set pre"
    with q obtain u where u: "u \<noteq> []" "w = fst x @ u" "snd x = u @ ?r3" by blast
    then have "hd u \<in> set w" by (cases u) auto
    with assms(5) have "hd u \<noteq> 42" by blast
    with u(1) have "lit (js ''**'') (snd x) = []"
      unfolding u(3) by (rule lit_stars_miss)
    then show "?k4 x = []" by (simp add: case_prod_unfold)
  qed
  then have 4: "first (List.bind (plus_lazy dot ?r2) ?k4) = Some (w, m)"
    unfolding p using 5 by (simp add: first_bind_skip)
  have 3: "first (?k2 (ws, ?r1)) = Some (w, m)"
    using 4 by (simp add: lit_self)
  have "takeWhile is_ws ?r0 = ws" and "dropWhile is_ws ?r0 = ?r1"
    using assms(2) star_not_ws by (simp_all add: js_def)
  then obtain rest2 where "star_greedy is_ws ?r0 = (ws, ?r1) # rest2"
    using star_greedy_longest [of is_ws ?r0] by auto
  then have 2: "first (List.bind (star_greedy is_ws ?r0) ?k2) = Some (w, m)"
    using 3 by (simp only: first_bind_hd_Some)
  have "vocabMatch (b # ?r0) = first (List.bind (cls is_bullet (b # ?r0))
           (\<lambda>r0. List.bind (star_greedy is_ws r0) ?k2))"
    by (simp add: vocabMatch_def)
  also have "\<dots> = first (List.bind (star_greedy is_ws ?r0) ?k2)"
    using assms(1) by (simp add: cls_hit)
  finally show ?thesis using 2 by simp
qed

lemma hashes23_bullet: "is_bullet b \<Longrightarrow> hashes23 (b # r) = []"
  by (auto simp: hashes23_def lit_def js_def is_bullet_def)

lemma bullet_not_boundary: "is_bullet b \<Longrightarrow> boundary (b # r) = None"
  by (simp add: boundary_def headerMatch_def keywordHeader_def hashes23_bullet first_Nil)

lemma collect_vocab_match:
  "currentSection st = VocabSec \<Longrightarrow> vocabMatch t = Some (g1, g2) \<Longrightarrow>
     collect st line t = st\<lparr>vocabItems := vocabItems st @ [\<lparr>word = trim g1, meaning = trim g2\<rparr>]\<rparr>"
  by (simp add: collect_def)

lemma collect_vocab_skip:
  "currentSection st = VocabSec \<Longrightarrow> vocabMatch t = None \<Longrightarrow> collect st line t = st"
  by (simp add: collect_def)

lemma vocabMatch_needs_bullet: "t = [] \<or> \<not> is_bullet (hd t) \<Longrightarrow> vocabMatch t = None"
proof (rule ccontr)
  assume a: "t = [] \<or> \<not> is_bullet (hd t)" and "vocabMatch t \<noteq> None"
  then obtain x where "vocabMatch t = Some x" by auto
  from vocabMatch_bullet [OF this] a show False by auto
qed

lemma sepText_mem:
  assumes "g \<in> set (sepText s)"
  shows "\<exists>sep v. s = sep @ g @ v \<and> sep \<noteq> [] \<and> (\<forall>c\<in>set sep. is_sep c)
           \<and> g \<noteq> [] \<and> (\<forall>c\<in>set g. dot c)"
proof -
  from assms obtain u r v where
    a: "(u, r) \<in> set (plus_greedy is_sep s)" and b: "(g, v) \<in> set (plus_greedy dot r)"
    by (auto simp: sepText_def set_list_bind)
  from plus_greedy_sound [OF a] plus_greedy_sound [OF b] show ?thesis
    by (intro exI [of _ u] exI [of _ v]) simp
qed

lemma vocabMatch_form:
  assumes "vocabMatch t = Some x"
  shows "\<exists>b ws w sep m. t = b # ws @ js ''**'' @ w @ js ''**'' @ sep @ m
           \<and> is_bullet b \<and> (\<forall>c\<in>set ws. is_ws c) \<and> w \<noteq> [] \<and> (\<forall>c\<in>set w. dot c)
           \<and> sep \<noteq> [] \<and> (\<forall>c\<in>set sep. is_sep c) \<and> m \<noteq> [] \<and> dot (hd m)"
proof -
  from first_Some_mem [OF assms [unfolded vocabMatch_def]] obtain r0 ws r1 r2 w r3 r4 g where
    1: "r0 \<in> set (cls is_bullet t)" and 2: "(ws, r1) \<in> set (star_greedy is_ws r0)"
    and 3: "r2 \<in> set (lit (js ''**'') r1)" and 4: "(w, r3) \<in> set (plus_lazy dot r2)"
    and 5: "r4 \<in> set (lit (js ''**'') r3)" and 6: "g \<in> set (sepText r4)"
    by (auto simp: set_list_bind)
  from 1 obtain b where b: "is_bullet b" "t = b # r0" by (auto simp: cls_iff)
  from star_greedy_sound [OF 2] have ws: "r0 = ws @ r1" "\<forall>c\<in>set ws. is_ws c" by simp_all
  from 3 have r1: "r1 = js ''**'' @ r2" by (simp add: lit_iff)
  from plus_lazy_sound [OF 4] have w: "r2 = w @ r3" "w \<noteq> []" "\<forall>c\<in>set w. dot c" by simp_all
  from 5 have r3: "r3 = js ''**'' @ r4" by (simp add: lit_iff)
  from sepText_mem [OF 6] obtain sep v where
    s: "r4 = sep @ g @ v" "sep \<noteq> []" "\<forall>c\<in>set sep. is_sep c" "g \<noteq> []" "\<forall>c\<in>set g. dot c"
    by blast
  have m: "g @ v \<noteq> []" "dot (hd (g @ v))" using s(4,5) by (cases g; simp)+
  have "t = b # ws @ js ''**'' @ w @ js ''**'' @ sep @ (g @ v)"
    by (simp add: b ws r1 w r3 s(1))
  with b(1) ws(2) w(2,3) s(2,3) m show ?thesis by blast
qed

text \<open>
  Claim C4, as the code has it. While the vocabulary section is active, a line adds an
  entry exactly when its trimmed text is a bullet (\<open>*\<close> or \<open>-\<close>, required), optional white
  space, two asterisks, a non-empty word without line terminator, two asterisks, a
  non-empty run of colons, full-width colons and white space (white space alone will do, a
  colon is not required), and at least one more code unit, the first of which is no line
  terminator. Such a line appends exactly one entry, the trimmed first group and the
  trimmed second group of the match, at the end of the vocabulary, whatever the vocabulary
  already holds; the groups are the word and the meaning as written when the word holds no
  asterisk and the meaning holds no line terminator and starts with neither white space
  nor a colon. Every other line adds no entry, and if it is no boundary it changes nothing.
\<close>

theorem vocab_line_appends:
  assumes "currentSection st = VocabSec"
  shows "(vocabMatch (trim line) \<noteq> None \<longleftrightarrow>
            (\<exists>b ws w sep m. trim line = b # ws @ js ''**'' @ w @ js ''**'' @ sep @ m
               \<and> is_bullet b \<and> (\<forall>c\<in>set ws. is_ws c) \<and> w \<noteq> [] \<and> (\<forall>c\<in>set w. dot c)
               \<and> sep \<noteq> [] \<and> (\<forall>c\<in>set sep. is_sep c) \<and> m \<noteq> [] \<and> dot (hd m)))
    \<and> (\<forall>g1 g2. vocabMatch (trim line) = Some (g1, g2) \<longrightarrow>
          step st line
            = st\<lparr>vocabItems := vocabItems st @ [\<lparr>word = trim g1, meaning = trim g2\<rparr>]\<rparr>)
    \<and> (vocabMatch (trim line) = None \<longrightarrow> vocabItems (step st line) = vocabItems st)
    \<and> (vocabMatch (trim line) = None \<and> boundary (trim line) = None \<longrightarrow> step st line = st)
    \<and> (trim line = b # ws @ js ''**'' @ w @ js ''**'' @ sep @ m
          \<and> is_bullet b \<and> (\<forall>c\<in>set ws. is_ws c) \<and> w \<noteq> [] \<and> (\<forall>c\<in>set w. dot c \<and> c \<noteq> 42)
          \<and> sep \<noteq> [] \<and> (\<forall>c\<in>set sep. is_sep c)
          \<and> m \<noteq> [] \<and> (\<forall>c\<in>set m. dot c) \<and> \<not> is_sep (hd m)
        \<longrightarrow> vocabMatch (trim line) = Some (w, m))"
proof (intro conjI allI impI)
  show "vocabMatch (trim line) \<noteq> None \<longleftrightarrow>
            (\<exists>b ws w sep m. trim line = b # ws @ js ''**'' @ w @ js ''**'' @ sep @ m
               \<and> is_bullet b \<and> (\<forall>c\<in>set ws. is_ws c) \<and> w \<noteq> [] \<and> (\<forall>c\<in>set w. dot c)
               \<and> sep \<noteq> [] \<and> (\<forall>c\<in>set sep. is_sep c) \<and> m \<noteq> [] \<and> dot (hd m))"
  proof
    assume "vocabMatch (trim line) \<noteq> None"
    then obtain x where "vocabMatch (trim line) = Some x" by auto
    then show "\<exists>b ws w sep m. trim line = b # ws @ js ''**'' @ w @ js ''**'' @ sep @ m
               \<and> is_bullet b \<and> (\<forall>c\<in>set ws. is_ws c) \<and> w \<noteq> [] \<and> (\<forall>c\<in>set w. dot c)
               \<and> sep \<noteq> [] \<and> (\<forall>c\<in>set sep. is_sep c) \<and> m \<noteq> [] \<and> dot (hd m)"
      by (rule vocabMatch_form)
  next
    assume "\<exists>b ws w sep m. trim line = b # ws @ js ''**'' @ w @ js ''**'' @ sep @ m
               \<and> is_bullet b \<and> (\<forall>c\<in>set ws. is_ws c) \<and> w \<noteq> [] \<and> (\<forall>c\<in>set w. dot c)
               \<and> sep \<noteq> [] \<and> (\<forall>c\<in>set sep. is_sep c) \<and> m \<noteq> [] \<and> dot (hd m)"
    then obtain b ws w sep m where
      t: "trim line = b # ws @ js ''**'' @ w @ js ''**'' @ sep @ m"
      and h: "is_bullet b" "\<forall>c\<in>set ws. is_ws c" "w \<noteq> []" "\<forall>c\<in>set w. dot c"
        "sep \<noteq> []" "\<forall>c\<in>set sep. is_sep c" "m \<noteq> []" "dot (hd m)"
      by blast
    show "vocabMatch (trim line) \<noteq> None"
      unfolding t using h by (rule vocabMatch_exists)
  qed
next
  fix g1 g2
  assume g: "vocabMatch (trim line) = Some (g1, g2)"
  from vocabMatch_bullet [OF g] obtain b u where "trim line = b # u" "is_bullet b" by blast
  then have "boundary (trim line) = None" by (simp add: bullet_not_boundary)
  then show "step st line
            = st\<lparr>vocabItems := vocabItems st @ [\<lparr>word = trim g1, meaning = trim g2\<rparr>]\<rparr>"
    using assms g by (simp add: step_no_boundary collect_vocab_match)
next
  assume "vocabMatch (trim line) = None"
  then have "currentSection st \<noteq> VocabSec \<or> vocabMatch (trim line) = None" by (rule disjI2)
  then show "vocabItems (step st line) = vocabItems st" by (rule step_vocab_unchanged)
next
  assume "vocabMatch (trim line) = None \<and> boundary (trim line) = None"
  then show "step st line = st"
    using assms by (simp add: step_no_boundary collect_vocab_skip)
next
  assume a: "trim line = b # ws @ js ''**'' @ w @ js ''**'' @ sep @ m
          \<and> is_bullet b \<and> (\<forall>c\<in>set ws. is_ws c) \<and> w \<noteq> [] \<and> (\<forall>c\<in>set w. dot c \<and> c \<noteq> 42)
          \<and> sep \<noteq> [] \<and> (\<forall>c\<in>set sep. is_sep c)
          \<and> m \<noteq> [] \<and> (\<forall>c\<in>set m. dot c) \<and> \<not> is_sep (hd m)"
  then have t: "trim line = b # ws @ js ''**'' @ w @ js ''**'' @ sep @ m" by (rule conjunct1)
  from a have h: "is_bullet b" "\<forall>c\<in>set ws. is_ws c" "w \<noteq> []" "\<forall>c\<in>set w. dot c"
      "\<forall>c\<in>set w. c \<noteq> 42" "sep \<noteq> []" "\<forall>c\<in>set sep. is_sep c" "m \<noteq> []"
      "\<forall>c\<in>set m. dot c" "\<not> is_sep (hd m)"
    by simp_all
  show "vocabMatch (trim line) = Some (w, m)"
    unfolding t using h by (rule vocabMatch_exact)
qed

text \<open>
  Claim C4 as stated fails in both directions: without the bullet the line
  "**rusty**: covered with rust" does not match and nothing is appended, and without a
  colon the line "* **rusty** covered with rust", which is not of the form the claim
  gives, appends an entry.
\<close>

theorem vocab_line_appends_counterexample:
  "vocabMatch (trim (js ''**rusty**: covered with rust'')) = None
   \<and> vocabItems (step (init\<lparr>currentSection := VocabSec\<rparr>) (js ''**rusty**: covered with rust''))
       = []
   \<and> vocabItems (step (init\<lparr>currentSection := VocabSec\<rparr>) (js ''* **rusty** covered with rust''))
       = [\<lparr>word = js ''rusty'', meaning = js ''covered with rust''\<rparr>]"
  by (simp add: re_eval)

text \<open>The vocabulary line of Scenario A satisfies the hypotheses.\<close>

theorem vocab_line_appends_witness:
  "currentSection (init\<lparr>currentSection := VocabSec\<rparr>) = VocabSec
   \<and> trim (js ''* **rusty**: covered with rust'')
       = 42 # js '' '' @ js ''**'' @ js ''rusty'' @ js ''**'' @ js '': '' @ js ''covered with rust''
   \<and> vocabMatch (trim (js ''* **rusty**: covered with rust''))
       = Some (js ''rusty'', js ''covered with rust'')
   \<and> step (init\<lparr>currentSection := VocabSec\<rparr>) (js ''* **rusty**: covered with rust'')
       = init\<lparr>currentSection := VocabSec,
              vocabItems := [\<lparr>word = js ''rusty'', meaning = js ''covered with rust''\<rparr>]\<rparr>"
proof -
  let ?st = "init\<lparr>currentSection := VocabSec\<rparr>"
  let ?l = "js ''* **rusty**: covered with rust''"
  have h1: "currentSection ?st = VocabSec" by simp
  have h2: "trim ?l = 42 # js '' '' @ js ''**'' @ js ''rusty'' @ js ''**'' @ js '': ''
           @ js ''covered with rust''"
    by (simp add: re_eval)
  have h3: "is_bullet 42 \<and> (\<forall>c\<in>set (js '' ''). is_ws c) \<and> js ''rusty'' \<noteq> []
      \<and> (\<forall>c\<in>set (js ''rusty''). dot c \<and> c \<noteq> 42)
      \<and> js '': '' \<noteq> [] \<and> (\<forall>c\<in>set (js '': ''). is_sep c)
      \<and> js ''covered with rust'' \<noteq> [] \<and> (\<forall>c\<in>set (js ''covered with rust''). dot c)
      \<and> \<not> is_sep (hd (js ''covered with rust''))"
    by (simp add: re_eval)
  note r = vocab_line_appends [OF h1, where line = ?l and b = 42 and ws = "js '' ''"
      and w = "js ''rusty''" and sep = "js '': ''" and m = "js ''covered with rust''"]
  have m: "vocabMatch (trim ?l) = Some (js ''rusty'', js ''covered with rust'')"
    by (rule r [THEN conjunct2, THEN conjunct2, THEN conjunct2, THEN conjunct2, THEN mp])
       (rule conjI [OF h2 h3])
  from r [THEN conjunct2, THEN conjunct1] m
  have "step ?st ?l = ?st\<lparr>vocabItems := vocabItems ?st
      @ [\<lparr>word = trim (js ''rusty''), meaning = trim (js ''covered with rust'')\<rparr>]\<rparr>"
    by blast
  then have s: "step ?st ?l = init\<lparr>currentSection := VocabSec,
              vocabItems := [\<lparr>word = js ''rusty'', meaning = js ''covered with rust''\<rparr>]\<rparr>"
    by (simp add: re_eval)
  from h1 h2 m s show ?thesis by (intro conjI)
qed

section \<open>The title while the title section is active\<close>

lemma headerMatch_content:
  "headerMatch t = Some (d, c) \<Longrightarrow> t = [] \<or> \<not> is_ws (last t) \<Longrightarrow> c \<noteq> [] \<and> \<not> is_ws (hd c)"
  apply (unfold headerMatch_def)
  apply (erule first_bindE)
  apply (erule first_bindE)
  apply (clarsimp simp: hashes23_iff)
  apply (erule first_bindE)
  apply clarsimp
  apply (erule first_bindE)
  apply (clarsimp simp: lit_iff)
  apply (drule star_greedy_sound)
  apply (drule plus_greedy_sound)
  apply (drule ws_then_text)
  apply (auto simp: js_def)
  done

lemma search_Some: "search m s = Some r \<Longrightarrow> \<exists>p t. s = p @ t \<and> first (m t) = Some r"
proof (induction s)
  case Nil
  then show ?case by simp
next
  case (Cons c cs)
  show ?case
  proof (cases "m (c # cs)")
    case Nil
    with Cons.prems have "search m cs = Some r" by simp
    from Cons.IH [OF this] obtain p t where "cs = p @ t" "first (m t) = Some r" by blast
    then have "c # cs = (c # p) @ t \<and> first (m t) = Some r" by simp
    then show ?thesis by blast
  next
    case (Cons a as)
    with Cons.prems have "first (m (c # cs)) = Some r" by (simp add: first_Cons)
    then have "c # cs = [] @ (c # cs) \<and> first (m (c # cs)) = Some r" by simp
    then show ?thesis by blast
  qed
qed

lemma lit_ci_iff: "r \<in> set (lit_ci p s) \<Longrightarrow> \<exists>q. s = q @ r"
  by (auto simp: lit_ci_def split: if_splits intro: exI [of _ "take (length p) s"])

lemma titleMatch_group:
  assumes "titleMatch s = Some g" and "s = [] \<or> \<not> is_ws (last s)"
  shows "g \<noteq> [] \<and> \<not> is_ws (hd g)"
proof -
  from search_Some [OF assms(1) [unfolded titleMatch_def]] obtain p t where
    s: "s = p @ t" and f: "first (List.bind (lit_ci (js ''Title'') t) sepText) = Some g"
    by auto
  from first_bind_Some [OF f] obtain r where
    r: "r \<in> set (lit_ci (js ''Title'') t)" and g: "first (sepText r) = Some g"
    by blast
  from lit_ci_iff [OF r] obtain q where "t = q @ r" by blast
  with s assms(2) have "r = [] \<or> \<not> is_ws (last r)" by (cases "r = []") auto
  with g show ?thesis by (rule sepText_first)
qed

lemma hd_not_ws_trim: "g \<noteq> [] \<Longrightarrow> \<not> is_ws (hd g) \<Longrightarrow> trim g \<noteq> []"
  by (cases g) (auto simp: trim_Nil_iff)

lemma numbered_title:
  assumes "numbered st (trim line) = Some st'" and "currentSection st' = TitleSec"
  shows "title st' \<noteq> []"
proof -
  from assms obtain g1 g2 where h: "headerMatch (trim line) = Some (g1, g2)"
    and n: "parseInt g1 = 1"
    and st': "st' = st\<lparr>title := (case titleMatch (trim g2) of
                                   Some g \<Rightarrow> trim g | None \<Rightarrow> trim g2),
                      currentSection := TitleSec\<rparr>"
    by (auto simp: numbered_def Let_def split: option.splits if_splits)
  from headerMatch_content [OF h trim_last] have c: "trim g2 \<noteq> []"
    by (simp add: hd_not_ws_trim)
  show ?thesis
  proof (cases "titleMatch (trim g2)")
    case None
    with c st' show ?thesis by simp
  next
    case (Some g)
    from titleMatch_group [OF Some trim_last] have "trim g \<noteq> []"
      by (simp add: hd_not_ws_trim)
    with Some st' show ?thesis by simp
  qed
qed

lemma step_title_inv:
  assumes "currentSection st = TitleSec \<longrightarrow> title st \<noteq> []"
  shows "currentSection (step st line) = TitleSec \<longrightarrow> title (step st line) \<noteq> []"
proof (cases "numbered st (trim line)")
  case (Some st')
  then have "step st line = st'" by (simp add: step_def Let_def)
  with numbered_title [OF Some] show ?thesis by simp
next
  case None
  show ?thesis
  proof (cases "keywordHeader jp_translation (trim line) \<or> keywordHeader jp_vocab (trim line)")
    case True
    with None show ?thesis by (auto simp: step_def Let_def)
  next
    case False
    with None have s: "step st line = collect st line (trim line)"
      by (simp add: step_def Let_def)
    show ?thesis
      using assms unfolding s
      by (cases "currentSection st"; cases "vocabMatch (trim line)")
         (auto simp: collect_def Let_def)
  qed
qed

lemma scan_title_inv:
  "currentSection (foldl step init ls) = TitleSec \<longrightarrow> title (foldl step init ls) \<noteq> []"
proof (induction ls rule: rev_induct)
  case Nil
  show ?case by (simp add: init_def)
next
  case (snoc l ls)
  then show ?case by (simp add: step_title_inv)
qed

lemma collect_title_kept:
  "currentSection st = TitleSec \<longrightarrow> title st \<noteq> [] \<Longrightarrow> title (collect st line t) = title st"
  by (cases "currentSection st"; cases "vocabMatch t") (auto simp: collect_def Let_def)

text \<open>
  Claim C3, as the code has it. A heading line whose number is none of 1, 2, 3, 4 is not a
  numbered boundary: the loop body goes on with it as with a line that has no number. It
  is a boundary only through one of the two keywords. It never adds a vocabulary entry,
  it never replaces a title already captured, and in a state that the scan of any lines
  has reached it never changes the title. When it is no boundary the current section
  stays, and the line is collected like any other line: in the body section it is appended
  to the body followed by a line feed, and in the translation section it is re-emitted as
  a bold sub-title when white space follows the marker and appended otherwise.
\<close>

theorem unknown_number_heading:
  assumes "headerMatch (trim line) = Some (d, c)" and "parseInt d \<notin> {1, 2, 3, 4}"
  shows "boundary (trim line)
           = (if keywordHeader jp_translation (trim line) then Some TranslationSec
              else if keywordHeader jp_vocab (trim line) then Some VocabSec else None)
    \<and> vocabItems (step st line) = vocabItems st
    \<and> (title st \<noteq> [] \<longrightarrow> title (step st line) = title st)
    \<and> title (step (foldl step init ls) line) = title (foldl step init ls)
    \<and> (boundary (trim line) = None \<longrightarrow>
          currentSection (step st line) = currentSection st
        \<and> englishBody (step st line)
            = (if currentSection st = EnglishSec then englishBody st @ line @ [NL]
               else englishBody st)
        \<and> translationText (step st line)
            = (if currentSection st = TranslationSec then
                 (if subHeader (trim line) then
                    (if stripTitleLabel (stripMarker (trim line)) = [] then translationText st
                     else translationText st @ js ''**''
                            @ stripTitleLabel (stripMarker (trim line)) @ js ''**'' @ [NL, NL])
                  else translationText st @ line @ [NL])
               else translationText st))"
proof (intro conjI impI)
  show "boundary (trim line)
           = (if keywordHeader jp_translation (trim line) then Some TranslationSec
              else if keywordHeader jp_vocab (trim line) then Some VocabSec else None)"
    using assms by (rule boundary_unknown)
  show "vocabItems (step st line) = vocabItems st"
    using header_not_vocab [OF assms(1)] by (simp add: step_vocab_unchanged)
  show "title (step st line) = title st" if "title st \<noteq> []"
    using that numbered_unknown [OF assms, of st]
    by (simp add: step_def Let_def collect_title)
  show "title (step (foldl step init ls) line) = title (foldl step init ls)"
    using numbered_unknown [OF assms, of "foldl step init ls"] scan_title_inv [of ls]
    by (simp add: step_def Let_def collect_title_kept)
next
  assume b: "boundary (trim line) = None"
  show "currentSection (step st line) = currentSection st"
    using b by (simp add: step_cursor)
  show "englishBody (step st line)
            = (if currentSection st = EnglishSec then englishBody st @ line @ [NL]
               else englishBody st)"
    using b by (simp only: step_no_boundary collect_english)
  show "translationText (step st line)
            = (if currentSection st = TranslationSec then
                 (if subHeader (trim line) then
                    (if stripTitleLabel (stripMarker (trim line)) = [] then translationText st
                     else translationText st @ js ''**''
                            @ stripTitleLabel (stripMarker (trim line)) @ js ''**'' @ [NL, NL])
                  else translationText st @ line @ [NL])
               else translationText st)"
    using b by (simp only: step_no_boundary collect_translation)
qed

text \<open>
  Claim C3 as stated fails: the line "## 5. Extra" matches the heading pattern with the
  number 5, and its text is part of the body that \<open>parseTemplate\<close> returns.
\<close>

theorem unknown_number_heading_counterexample:
  "headerMatch (trim (js ''## 5. Extra'')) = Some (js ''5'', js ''Extra'')
   \<and> parseInt (js ''5'') = 5
   \<and> parseTemplate inputC3
       = Some \<lparr>rtitle = js ''T'', english = js ''## 5. Extra'' @ [NL] @ js ''body'',
               vocab = [], translation = []\<rparr>"
  by (simp add: inputC3_def re_eval)

text \<open>The same line in the body section satisfies the hypotheses.\<close>

theorem unknown_number_heading_witness:
  "headerMatch (trim (js ''## 5. Extra'')) = Some (js ''5'', js ''Extra'')
   \<and> parseInt (js ''5'') \<notin> {1, 2, 3, 4}
   \<and> boundary (trim (js ''## 5. Extra'')) = None
   \<and> englishBody (step (init\<lparr>currentSection := EnglishSec\<rparr>) (js ''## 5. Extra''))
       = englishBody (init\<lparr>currentSection := EnglishSec\<rparr>) @ js ''## 5. Extra'' @ [NL]"
proof -
  have h1: "headerMatch (trim (js ''## 5. Extra'')) = Some (js ''5'', js ''Extra'')"
    by (simp add: re_eval)
  have h2: "parseInt (js ''5'') \<notin> {1, 2, 3, 4}"
    by (simp add: re_eval)
  have h3: "boundary (trim (js ''## 5. Extra'')) = None"
    by (simp add: boundary_def re_eval)
  have h4: "currentSection (init\<lparr>currentSection := EnglishSec\<rparr>) = EnglishSec"
    by simp
  from unknown_number_heading [OF h1 h2, of "init\<lparr>currentSection := EnglishSec\<rparr>"] h3 h4
  have "englishBody (step (init\<lparr>currentSection := EnglishSec\<rparr>) (js ''## 5. Extra''))
       = englishBody (init\<lparr>currentSection := EnglishSec\<rparr>) @ js ''## 5. Extra'' @ [NL]"
    by (simp only: if_True simp_thms)
  with h1 h2 h3 show ?thesis by (intro conjI)
qed

section \<open>Parses with an empty vocabulary\<close>

lemma step_title_boundary:
  "boundary (trim h) = Some TitleSec \<Longrightarrow>
     step st h = st\<lparr>title := title (step st h), currentSection := TitleSec\<rparr>"
  by (cases "headerMatch (trim h)")
     (auto simp: boundary_def numbered_def step_def Let_def split: if_splits)

lemma step_english_boundary:
  "boundary (trim h) = Some EnglishSec \<Longrightarrow> step st h = st\<lparr>currentSection := EnglishSec\<rparr>"
  by (cases "headerMatch (trim h)")
     (auto simp: boundary_def numbered_def step_def Let_def split: if_splits)

lemma step_vocab_boundary:
  "boundary (trim h) = Some VocabSec \<Longrightarrow> step st h = st\<lparr>currentSection := VocabSec\<rparr>"
  by (cases "headerMatch (trim h)")
     (auto simp: boundary_def numbered_def step_def Let_def split: if_splits)

lemma foldl_body:
  "currentSection st = EnglishSec \<Longrightarrow> \<forall>l\<in>set ls. boundary (trim l) = None \<Longrightarrow>
     foldl step st ls = st\<lparr>englishBody := englishBody st @ concat (map (\<lambda>l. l @ [NL]) ls)\<rparr>"
proof (induction ls arbitrary: st)
  case Nil
  show ?case by simp
next
  case (Cons l ls)
  have s: "step st l = st\<lparr>englishBody := englishBody st @ l @ [NL]\<rparr>"
    using Cons.prems by (simp add: step_no_boundary collect_def)
  have "foldl step (step st l) ls
      = (step st l)\<lparr>englishBody := englishBody (step st l) @ concat (map (\<lambda>l. l @ [NL]) ls)\<rparr>"
    using Cons.prems by (intro Cons.IH) (simp_all add: s)
  then show ?case by (simp add: s)
qed

lemma foldl_vocab_skip:
  "currentSection st = VocabSec \<Longrightarrow>
     \<forall>l\<in>set ls. boundary (trim l) = None \<and> vocabMatch (trim l) = None \<Longrightarrow>
     foldl step st ls = st"
proof (induction ls)
  case Nil
  show ?case by simp
next
  case (Cons l ls)
  then have "step st l = st" by (simp add: step_no_boundary collect_vocab_skip)
  with Cons show ?case by simp
qed

lemma scan_title_body:
  assumes "boundary (trim h1) = Some TitleSec" and "boundary (trim h2) = Some EnglishSec"
    and "\<forall>l\<in>set body. boundary (trim l) = None"
  shows "foldl step init (h1 # h2 # body)
           = \<lparr>title = title (step init h1),
              englishBody = concat (map (\<lambda>l. l @ [NL]) body),
              vocabItems = [], translationText = [], currentSection = EnglishSec\<rparr>"
proof -
  have 1: "step init h1 = init\<lparr>title := title (step init h1), currentSection := TitleSec\<rparr>"
    using assms(1) by (rule step_title_boundary)
  have 2: "step (step init h1) h2 = (step init h1)\<lparr>currentSection := EnglishSec\<rparr>"
    using assms(2) by (rule step_english_boundary)
  have 3: "currentSection (step (step init h1) h2) = EnglishSec"
    by (simp add: 2)
  have "foldl step init (h1 # h2 # body) = foldl step (step (step init h1) h2) body"
    by simp
  also have "\<dots> = (step (step init h1) h2)
      \<lparr>englishBody := englishBody (step (step init h1) h2) @ concat (map (\<lambda>l. l @ [NL]) body)\<rparr>"
    using 3 assms(3) by (rule foldl_body)
  also have "\<dots> = \<lparr>title = title (step init h1),
              englishBody = concat (map (\<lambda>l. l @ [NL]) body),
              vocabItems = [], translationText = [], currentSection = EnglishSec\<rparr>"
    unfolding 2 by (subst (1 2) 1) (simp add: init_def)
  finally show ?thesis .
qed

lemma title_after_heading:
  assumes "boundary (trim h1) = Some TitleSec"
  shows "title (step init h1) \<noteq> []"
proof -
  have "currentSection (step init h1) = TitleSec"
    using assms by (simp add: step_cursor)
  moreover have "currentSection init = TitleSec \<longrightarrow> title init \<noteq> []"
    by (simp add: init_def)
  ultimately show ?thesis using step_title_inv [of init h1] by blast
qed

lemma trim_empty: "trim [] = []"
  by (simp add: trim_def)

lemma inputV_vocab_lines:
  "\<forall>i<length (split_nl inputV).
      currentSection (foldl step init (take i (split_nl inputV))) = VocabSec
      \<longrightarrow> vocabMatch (trim (split_nl inputV ! i)) = None"
proof -
  have sv: "split_nl inputV = [js ''## 1. T'', js ''## 2. E'', js ''b'', js ''## 3. V'', js ''not a bullet'']"
    by (simp add: inputV_def re_eval)
  have vn: "vocabMatch (trim (js ''not a bullet'')) = None" by (simp add: re_eval)
  show ?thesis
    unfolding sv by (simp add: All_less_Suc vn) (simp add: boundary_def re_eval)
qed

text \<open>
  Claim C7. Whenever the scan leaves a non-empty title and a body that is non-empty after
  trimming, \<open>parseTemplate\<close> returns a record, and the record is valid: its title is the
  scanned title, its body the trimmed scanned body, and neither is empty. If no line met
  while the vocabulary section is active matches the vocabulary pattern, the vocabulary
  of the record is empty; if no line of the input switches to the vocabulary or to the
  translation section, the vocabulary is empty and the translation is the empty string.
  In particular, for an input that is a title heading, a body heading and body lines
  that are no boundaries and are not all white space, alone or followed by a vocabulary
  heading and lines none of which is a boundary or matches the vocabulary pattern, the
  record has the title of the title heading, the trimmed body lines as body, the empty
  vocabulary and the empty translation.
\<close>

theorem parse_succeeds_with_empty_vocab:
  "(title (scan input) \<noteq> [] \<and> trim (englishBody (scan input)) \<noteq> [] \<longrightarrow>
      (\<exists>r. parseTemplate input = Some r
         \<and> rtitle r = title (scan input) \<and> rtitle r \<noteq> []
         \<and> english r = trim (englishBody (scan input)) \<and> english r \<noteq> []
         \<and> ((\<forall>i<length (split_nl input).
                currentSection (foldl step init (take i (split_nl input))) = VocabSec
                \<longrightarrow> vocabMatch (trim (split_nl input ! i)) = None)
             \<longrightarrow> vocab r = [])
         \<and> ((\<forall>l\<in>set (split_nl input).
                boundary (trim l) \<noteq> Some VocabSec \<and> boundary (trim l) \<noteq> Some TranslationSec)
             \<longrightarrow> vocab r = [] \<and> translation r = [])))
   \<and> (split_nl input = htitle # hbody # body
        \<and> boundary (trim htitle) = Some TitleSec \<and> boundary (trim hbody) = Some EnglishSec
        \<and> (\<forall>l\<in>set body. boundary (trim l) = None)
        \<and> trim (concat (map (\<lambda>l. l @ [NL]) body)) \<noteq> []
      \<longrightarrow> title (step init htitle) \<noteq> []
        \<and> parseTemplate input
            = Some \<lparr>rtitle = title (step init htitle),
                    english = trim (concat (map (\<lambda>l. l @ [NL]) body)),
                    vocab = [], translation = []\<rparr>)
   \<and> (split_nl input = htitle # hbody # body @ hvocab # vs
        \<and> boundary (trim htitle) = Some TitleSec \<and> boundary (trim hbody) = Some EnglishSec
        \<and> (\<forall>l\<in>set body. boundary (trim l) = None)
        \<and> trim (concat (map (\<lambda>l. l @ [NL]) body)) \<noteq> []
        \<and> boundary (trim hvocab) = Some VocabSec
        \<and> (\<forall>l\<in>set vs. boundary (trim l) = None \<and> vocabMatch (trim l) = None)
      \<longrightarrow> title (step init htitle) \<noteq> []
        \<and> parseTemplate input
            = Some \<lparr>rtitle = title (step init htitle),
                    english = trim (concat (map (\<lambda>l. l @ [NL]) body)),
                    vocab = [], translation = []\<rparr>)"
proof (intro conjI)
  show "title (scan input) \<noteq> [] \<and> trim (englishBody (scan input)) \<noteq> [] \<longrightarrow>
      (\<exists>r. parseTemplate input = Some r
         \<and> rtitle r = title (scan input) \<and> rtitle r \<noteq> []
         \<and> english r = trim (englishBody (scan input)) \<and> english r \<noteq> []
         \<and> ((\<forall>i<length (split_nl input).
                currentSection (foldl step init (take i (split_nl input))) = VocabSec
                \<longrightarrow> vocabMatch (trim (split_nl input ! i)) = None)
             \<longrightarrow> vocab r = [])
         \<and> ((\<forall>l\<in>set (split_nl input).
                boundary (trim l) \<noteq> Some VocabSec \<and> boundary (trim l) \<noteq> Some TranslationSec)
             \<longrightarrow> vocab r = [] \<and> translation r = []))"
  proof
    assume a: "title (scan input) \<noteq> [] \<and> trim (englishBody (scan input)) \<noteq> []"
    let ?r = "\<lparr>rtitle = title (scan input), english = trim (englishBody (scan input)),
             vocab = vocabItems (scan input), translation = trim (translationText (scan input))\<rparr>"
    have p: "parseTemplate input = Some ?r"
      using a by (simp add: parseTemplate_def Let_def)
    have va: "vocab ?r = []"
      if "\<forall>i<length (split_nl input).
           currentSection (foldl step init (take i (split_nl input))) = VocabSec
           \<longrightarrow> vocabMatch (trim (split_nl input ! i)) = None"
      using scan_no_vocab_match [OF that, of "length (split_nl input)"] by (simp add: scan_def)
    have vb: "vocab ?r = [] \<and> translation ?r = []"
      if "\<forall>l\<in>set (split_nl input).
           boundary (trim l) \<noteq> Some VocabSec \<and> boundary (trim l) \<noteq> Some TranslationSec"
      using scan_no_headings [OF that, of init] by (simp add: scan_def init_def trim_def)
    show "\<exists>r. parseTemplate input = Some r
         \<and> rtitle r = title (scan input) \<and> rtitle r \<noteq> []
         \<and> english r = trim (englishBody (scan input)) \<and> english r \<noteq> []
         \<and> ((\<forall>i<length (split_nl input).
                currentSection (foldl step init (take i (split_nl input))) = VocabSec
                \<longrightarrow> vocabMatch (trim (split_nl input ! i)) = None)
             \<longrightarrow> vocab r = [])
         \<and> ((\<forall>l\<in>set (split_nl input).
                boundary (trim l) \<noteq> Some VocabSec \<and> boundary (trim l) \<noteq> Some TranslationSec)
             \<longrightarrow> vocab r = [] \<and> translation r = [])"
    proof (intro exI [of _ ?r] conjI impI)
      show "parseTemplate input = Some ?r" by (rule p)
      show "rtitle ?r = title (scan input)" by simp
      show "rtitle ?r \<noteq> []" using a by simp
      show "english ?r = trim (englishBody (scan input))" by simp
      show "english ?r \<noteq> []" using a by simp
    next
      assume "\<forall>i<length (split_nl input).
           currentSection (foldl step init (take i (split_nl input))) = VocabSec
           \<longrightarrow> vocabMatch (trim (split_nl input ! i)) = None"
      then show "vocab ?r = []" by (rule va)
    next
      assume h: "\<forall>l\<in>set (split_nl input).
           boundary (trim l) \<noteq> Some VocabSec \<and> boundary (trim l) \<noteq> Some TranslationSec"
      from vb [OF h] show "vocab ?r = []" by (rule conjunct1)
      from vb [OF h] show "translation ?r = []" by (rule conjunct2)
    qed
  qed
next
  show "split_nl input = htitle # hbody # body
        \<and> boundary (trim htitle) = Some TitleSec \<and> boundary (trim hbody) = Some EnglishSec
        \<and> (\<forall>l\<in>set body. boundary (trim l) = None)
        \<and> trim (concat (map (\<lambda>l. l @ [NL]) body)) \<noteq> []
      \<longrightarrow> title (step init htitle) \<noteq> []
        \<and> parseTemplate input
            = Some \<lparr>rtitle = title (step init htitle),
                    english = trim (concat (map (\<lambda>l. l @ [NL]) body)),
                    vocab = [], translation = []\<rparr>"
  proof (intro impI, elim conjE)
    assume s: "split_nl input = htitle # hbody # body"
      and b1: "boundary (trim htitle) = Some TitleSec" and b2: "boundary (trim hbody) = Some EnglishSec"
      and bb: "\<forall>l\<in>set body. boundary (trim l) = None"
      and ne: "trim (concat (map (\<lambda>l. l @ [NL]) body)) \<noteq> []"
    have t: "title (step init htitle) \<noteq> []" using b1 by (rule title_after_heading)
    have "scan input = \<lparr>title = title (step init htitle),
              englishBody = concat (map (\<lambda>l. l @ [NL]) body),
              vocabItems = [], translationText = [], currentSection = EnglishSec\<rparr>"
      unfolding scan_def s using b1 b2 bb by (rule scan_title_body)
    then have "parseTemplate input
            = Some \<lparr>rtitle = title (step init htitle),
                    english = trim (concat (map (\<lambda>l. l @ [NL]) body)),
                    vocab = [], translation = []\<rparr>"
      using t ne by (simp add: parseTemplate_def Let_def trim_empty)
    with t show "title (step init htitle) \<noteq> []
        \<and> parseTemplate input
            = Some \<lparr>rtitle = title (step init htitle),
                    english = trim (concat (map (\<lambda>l. l @ [NL]) body)),
                    vocab = [], translation = []\<rparr>"
      by (rule conjI)
  qed
next
  show "split_nl input = htitle # hbody # body @ hvocab # vs
        \<and> boundary (trim htitle) = Some TitleSec \<and> boundary (trim hbody) = Some EnglishSec
        \<and> (\<forall>l\<in>set body. boundary (trim l) = None)
        \<and> trim (concat (map (\<lambda>l. l @ [NL]) body)) \<noteq> []
        \<and> boundary (trim hvocab) = Some VocabSec
        \<and> (\<forall>l\<in>set vs. boundary (trim l) = None \<and> vocabMatch (trim l) = None)
      \<longrightarrow> title (step init htitle) \<noteq> []
        \<and> parseTemplate input
            = Some \<lparr>rtitle = title (step init htitle),
                    english = trim (concat (map (\<lambda>l. l @ [NL]) body)),
                    vocab = [], translation = []\<rparr>"
  proof (intro impI, elim conjE)
    assume s: "split_nl input = htitle # hbody # body @ hvocab # vs"
      and b1: "boundary (trim htitle) = Some TitleSec" and b2: "boundary (trim hbody) = Some EnglishSec"
      and bb: "\<forall>l\<in>set body. boundary (trim l) = None"
      and ne: "trim (concat (map (\<lambda>l. l @ [NL]) body)) \<noteq> []"
      and b3: "boundary (trim hvocab) = Some VocabSec"
      and bv: "\<forall>l\<in>set vs. boundary (trim l) = None \<and> vocabMatch (trim l) = None"
    let ?e = "\<lparr>title = title (step init htitle),
              englishBody = concat (map (\<lambda>l. l @ [NL]) body),
              vocabItems = [], translationText = [], currentSection = EnglishSec\<rparr>"
    have t: "title (step init htitle) \<noteq> []" using b1 by (rule title_after_heading)
    have e: "foldl step init (htitle # hbody # body) = ?e"
      using b1 b2 bb by (rule scan_title_body)
    have v: "step ?e hvocab = ?e\<lparr>currentSection := VocabSec\<rparr>"
      using b3 by (rule step_vocab_boundary)
    have f: "foldl step (?e\<lparr>currentSection := VocabSec\<rparr>) vs = ?e\<lparr>currentSection := VocabSec\<rparr>"
      using _ bv by (rule foldl_vocab_skip) simp
    have "foldl step init ((htitle # hbody # body) @ hvocab # vs)
        = foldl step (step (foldl step init (htitle # hbody # body)) hvocab) vs"
      by simp
    also have "\<dots> = foldl step (step ?e hvocab) vs" by (simp only: e)
    also have "\<dots> = ?e\<lparr>currentSection := VocabSec\<rparr>" by (simp only: v f)
    finally have "foldl step init ((htitle # hbody # body) @ hvocab # vs) = ?e\<lparr>currentSection := VocabSec\<rparr>" .
    then have "scan input = ?e\<lparr>currentSection := VocabSec\<rparr>"
      by (simp add: scan_def s)
    then have "parseTemplate input
            = Some \<lparr>rtitle = title (step init htitle),
                    english = trim (concat (map (\<lambda>l. l @ [NL]) body)),
                    vocab = [], translation = []\<rparr>"
      using t ne by (simp add: parseTemplate_def Let_def trim_empty)
    with t show "title (step init htitle) \<noteq> []
        \<and> parseTemplate input
            = Some \<lparr>rtitle = title (step init htitle),
                    english = trim (concat (map (\<lambda>l. l @ [NL]) body)),
                    vocab = [], translation = []\<rparr>"
      by (rule conjI)
  qed
qed


text \<open>
  An input with a vocabulary section whose only line does not match, and Scenario B,
  satisfy the hypotheses.
\<close>

theorem parse_succeeds_with_empty_vocab_witness:
  "split_nl inputV = [js ''## 1. T'', js ''## 2. E'', js ''b'', js ''## 3. V'', js ''not a bullet'']
   \<and> boundary (trim (js ''## 3. V'')) = Some VocabSec
   \<and> vocabMatch (trim (js ''not a bullet'')) = None
   \<and> parseTemplate inputV
       = Some \<lparr>rtitle = js ''T'', english = js ''b'', vocab = [], translation = []\<rparr>
   \<and> (\<exists>r. parseTemplate inputV = Some r \<and> rtitle r = title (scan inputV)
          \<and> english r = trim (englishBody (scan inputV)) \<and> vocab r = [])
   \<and> title (scan inputV) = js ''T'' \<and> trim (englishBody (scan inputV)) = js ''b''
   \<and> split_nl inputB = [js ''## 1. T'', js ''## 2. E'', js ''b'']
   \<and> parseTemplate inputB
       = Some \<lparr>rtitle = js ''T'', english = js ''b'', vocab = [], translation = []\<rparr>"
proof -
  let ?h1 = "js ''## 1. T''" and ?h2 = "js ''## 2. E''" and ?h3 = "js ''## 3. V''"
  let ?b = "js ''b''" and ?n = "js ''not a bullet''"
  have sv: "split_nl inputV = ?h1 # ?h2 # [?b] @ ?h3 # [?n]"
    by (simp add: inputV_def re_eval)
  have sb: "split_nl inputB = ?h1 # ?h2 # [?b]"
    by (simp add: inputB_def re_eval)
  have b1: "boundary (trim ?h1) = Some TitleSec" by (simp add: boundary_def re_eval)
  have b2: "boundary (trim ?h2) = Some EnglishSec" by (simp add: boundary_def re_eval)
  have b3: "boundary (trim ?h3) = Some VocabSec" by (simp add: boundary_def re_eval)
  have bb: "\<forall>l\<in>set [?b]. boundary (trim l) = None" by (simp add: boundary_def re_eval)
  have vn: "vocabMatch (trim ?n) = None" by (simp add: re_eval)
  have bv: "\<forall>l\<in>set [?n]. boundary (trim l) = None \<and> vocabMatch (trim l) = None"
    by (simp add: boundary_def re_eval)
  have ne: "trim (concat (map (\<lambda>l. l @ [NL]) [?b])) \<noteq> []" by (simp add: re_eval)
  have t: "title (step init ?h1) = js ''T''" by (simp add: re_eval)
  have e: "trim (concat (map (\<lambda>l. l @ [NL]) [?b])) = js ''b''" by (simp add: re_eval)
  note th = parse_succeeds_with_empty_vocab [where htitle = ?h1 and hbody = ?h2 and body = "[?b]"
      and hvocab = ?h3 and vs = "[?n]"]
  have "parseTemplate inputV
      = Some \<lparr>rtitle = title (step init ?h1),
              english = trim (concat (map (\<lambda>l. l @ [NL]) [?b])), vocab = [], translation = []\<rparr>"
    using th [where input = inputV, THEN conjunct2, THEN conjunct2, THEN mp,
        OF conjI [OF sv conjI [OF b1 conjI [OF b2 conjI [OF bb conjI [OF ne conjI [OF b3 bv]]]]]]]
    by (rule conjunct2)
  then have pv: "parseTemplate inputV
      = Some \<lparr>rtitle = js ''T'', english = js ''b'', vocab = [], translation = []\<rparr>"
    by (simp only: t e)
  have "parseTemplate inputB
      = Some \<lparr>rtitle = title (step init ?h1),
              english = trim (concat (map (\<lambda>l. l @ [NL]) [?b])), vocab = [], translation = []\<rparr>"
    using th [where input = inputB, THEN conjunct2, THEN conjunct1, THEN mp,
        OF conjI [OF sb conjI [OF b1 conjI [OF b2 conjI [OF bb ne]]]]]
    by (rule conjunct2)
  then have pb: "parseTemplate inputB
      = Some \<lparr>rtitle = js ''T'', english = js ''b'', vocab = [], translation = []\<rparr>"
    by (simp only: t e)
  have st: "title (scan inputV) = js ''T''" by (simp add: inputV_def re_eval)
  have se: "trim (englishBody (scan inputV)) = js ''b''" by (simp add: inputV_def re_eval)
  have hs: "title (scan inputV) \<noteq> [] \<and> trim (englishBody (scan inputV)) \<noteq> []"
    by (simp add: st se js_def)
  from th [where input = inputV, THEN conjunct1, THEN mp, OF hs] obtain r where
    r: "parseTemplate inputV = Some r" "rtitle r = title (scan inputV)"
      "english r = trim (englishBody (scan inputV))"
    and iv: "(\<forall>i<length (split_nl inputV).
                currentSection (foldl step init (take i (split_nl inputV))) = VocabSec
                \<longrightarrow> vocabMatch (trim (split_nl inputV ! i)) = None)
             \<longrightarrow> vocab r = []"
    by (elim exE conjE)
  from iv inputV_vocab_lines have "vocab r = []" by (rule mp)
  with r have ex: "\<exists>r. parseTemplate inputV = Some r \<and> rtitle r = title (scan inputV)
          \<and> english r = trim (englishBody (scan inputV)) \<and> vocab r = []"
    by (intro exI [of _ r] conjI)
  have sv': "split_nl inputV = [?h1, ?h2, ?b, ?h3, ?n]" using sv by simp
  have sb': "split_nl inputB = [?h1, ?h2, ?b]" using sb by simp
  from sv' b3 vn pv ex st se sb' pb show ?thesis by (intro conjI)
qed

end
